theory Spec2Isabelle
  imports Complex_Main "HOL-Library.Word"
begin

section \<open>JavaScript numbers\<close>

text \<open>
  Numbers of the source are IEEE doubles (samples are stored as 32-bit floats). The
  model computes with exact reals: rounding is not modelled. Where the source can
  produce NaN (a read outside an array, \<open>0/0\<close>) the model says so: such a value has
  type \<open>real option\<close> and \<open>None\<close> is NaN. A comparison with NaN is false.
\<close>

definition js_round :: "real \<Rightarrow> int" where
  \<comment> \<open>\<open>Math.round\<close>: to the nearest integer, halves upwards.\<close>
  "js_round x = \<lfloor>x + 1 / 2\<rfloor>"

definition js_gt :: "real option \<Rightarrow> real \<Rightarrow> bool" where
  \<comment> \<open>\<open>a > b\<close> where \<open>a\<close> may be NaN.\<close>
  "js_gt a b = (case a of None \<Rightarrow> False | Some v \<Rightarrow> v > b)"

definition js_lt :: "real option \<Rightarrow> real \<Rightarrow> bool" where
  \<comment> \<open>\<open>a < b\<close> where \<open>a\<close> may be NaN.\<close>
  "js_lt a b = (case a of None \<Rightarrow> False | Some v \<Rightarrow> v < b)"

section \<open>AudioEngine: spectrum, spectral flux, onsets, tempo\<close>

definition hann :: "nat \<Rightarrow> nat \<Rightarrow> real" where
  \<comment> \<open>\<open>0.5 * (1 - Math.cos(2 * Math.PI * i / (real.length - 1)))\<close>\<close>
  "hann n i = 0.5 * (1 - cos (2 * pi * real i / (real n - 1)))"

definition computeSpectrum :: "real list \<Rightarrow> real list" where
  \<comment> \<open>\<open>AudioEngine.computeSpectrum\<close>. \<open>re\<close> is the copy of the window multiplied by the
      Hann window, \<open>im\<close> stays all zero, and bin \<open>i\<close> is read off entry \<open>i\<close> of both.
      The result has \<open>\<lfloor>N/2\<rfloor>\<close> entries (the length of a \<open>Float32Array(N / 2)\<close>). For
      \<open>N = 1\<close> the source's window value is NaN, but then the result is empty and no
      entry of \<open>re\<close> is read.\<close>
  "computeSpectrum window =
     (let n = length window;
          re = map (\<lambda>i. window ! i * hann n i) [0..<n];
          im = replicate n (0::real)
      in map (\<lambda>i. sqrt (re ! i * re ! i + im ! i * im ! i)) [0..<n div 2])"

definition flux_sum :: "real list \<Rightarrow> real list \<Rightarrow> real" where
  \<comment> \<open>The loop shared by both \<open>computeSpectralFlux\<close>:
      \<open>for i < current.length: diff = current[i] - previous[i]; if (diff > 0) flux += diff\<close>.
      Where \<open>previous\<close> is shorter, \<open>diff\<close> is NaN and \<open>diff > 0\<close> is false.\<close>
  "flux_sum current previous =
     fold (\<lambda>i flux.
             if i < length previous \<and> current ! i - previous ! i > 0
             then flux + (current ! i - previous ! i) else flux)
          [0..<length current] 0"

definition computeSpectralFlux :: "real list \<Rightarrow> real list \<Rightarrow> real option" where
  \<comment> \<open>\<open>AudioEngine.computeSpectralFlux\<close>: \<open>flux / current.length\<close>, which is \<open>0/0\<close> = NaN
      for an empty spectrum.\<close>
  "computeSpectralFlux current previous =
     (if length current = 0 then None
      else Some (flux_sum current previous / real (length current)))"

definition onset_step ::
  "real list \<Rightarrow> real \<Rightarrow> nat \<Rightarrow> real list option \<times> real list \<Rightarrow> real list option \<times> real list" where
  \<comment> \<open>One pass through the body of the loop of \<open>detectOnsets\<close>, on the state
      (\<open>prevSpectrum\<close>, \<open>onsets\<close>).\<close>
  "onset_step audioData sampleRate i st =
     (let window = take 1024 (drop i audioData);
          spectrum = computeSpectrum window;
          onsets = (case fst st of
                      None \<Rightarrow> snd st
                    | Some prev \<Rightarrow>
                        if js_gt (computeSpectralFlux spectrum prev) 0.1
                        then snd st @ [real i / sampleRate] else snd st)
      in (Some spectrum, onsets))"

function detectOnsets_loop ::
  "real list \<Rightarrow> real \<Rightarrow> nat \<Rightarrow> real list option \<times> real list \<Rightarrow> real list" where
  "detectOnsets_loop audioData sampleRate i st =
     (if i + 1024 < length audioData
      then detectOnsets_loop audioData sampleRate (i + 512) (onset_step audioData sampleRate i st)
      else snd st)"
  by pat_completeness auto
termination
  by (relation "measure (\<lambda>(audioData, sampleRate, i, st). length audioData - i)") auto

declare detectOnsets_loop.simps [simp del]

definition detectOnsets :: "real list \<Rightarrow> real \<Rightarrow> real list" where
  \<comment> \<open>\<open>for (let i = 0; i < audioData.length - windowSize; i += hopSize)\<close> with
      \<open>windowSize = 1024\<close>, \<open>hopSize = 512\<close>.\<close>
  "detectOnsets audioData sampleRate = detectOnsets_loop audioData sampleRate 0 (None, [])"

record tempo =
  bpm :: int
  confidence :: real

fun intervals_of :: "real list \<Rightarrow> real list" where
  \<comment> \<open>\<open>for i = 1 .. onsets.length - 1: intervals.push(onsets[i] - onsets[i - 1])\<close>\<close>
  "intervals_of (a # b # xs) = (b - a) # intervals_of (b # xs)"
| "intervals_of _ = []"

fun histogram_bump :: "real \<Rightarrow> (real \<times> nat) list \<Rightarrow> (real \<times> nat) list" where
  \<comment> \<open>\<open>histogram.set(bucket, (histogram.get(bucket) || 0) + 1)\<close> on a \<open>Map\<close>, kept as
      an association list in insertion order (the order \<open>forEach\<close> visits).\<close>
  "histogram_bump bucket [] = [(bucket, 1)]"
| "histogram_bump bucket ((k, c) # h) =
     (if k = bucket then (k, c + 1) # h else (k, c) # histogram_bump bucket h)"

definition bucket_of :: "real \<Rightarrow> real" where
  \<comment> \<open>\<open>Math.round(interval / resolution) * resolution\<close> with \<open>resolution = 0.01\<close>\<close>
  "bucket_of interval = real_of_int (js_round (interval / 0.01)) * 0.01"

definition build_histogram :: "real list \<Rightarrow> (real \<times> nat) list" where
  "build_histogram intervals = fold (\<lambda>interval h. histogram_bump (bucket_of interval) h) intervals []"

definition find_peak :: "(real \<times> nat) list \<Rightarrow> nat \<times> real" where
  \<comment> \<open>The peak search, on the state (\<open>maxCount\<close>, \<open>bestInterval\<close>), from \<open>(0, 0.5)\<close>.\<close>
  "find_peak histogram =
     fold (\<lambda>(interval, count) (maxCount, bestInterval).
             if count > maxCount \<and> interval > 0.2 \<and> interval < 2.0
             then (count, interval) else (maxCount, bestInterval))
          histogram (0, 0.5)"

definition estimateTempo :: "real list \<Rightarrow> real \<Rightarrow> tempo" where
  "estimateTempo onsets sampleRate =
     (if length onsets < 4 then \<lparr>bpm = 120, confidence = 0\<rparr>
      else
        let intervals = intervals_of onsets;
            histogram = build_histogram intervals;
            (maxCount, bestInterval) = find_peak histogram;
            bpm = 60 / bestInterval;
            confidence = real maxCount / real (length intervals)
        in \<lparr>bpm = js_round bpm, confidence = confidence\<rparr>)"

definition detectTempo :: "real list \<Rightarrow> real \<Rightarrow> tempo" where
  "detectTempo channelData sampleRate = estimateTempo (detectOnsets channelData sampleRate) sampleRate"

section \<open>TimeShaperProcessor: the AudioWorklet processor\<close>

definition dft_step :: "real list \<Rightarrow> nat \<Rightarrow> nat \<Rightarrow> real \<times> real \<Rightarrow> real \<times> real" where
  \<comment> \<open>The body of the inner loop of \<open>computeMagnitudeSpectrum\<close>, on (\<open>real\<close>, \<open>imag\<close>).\<close>
  "dft_step buffer k n acc =
     (let angle = - 2 * pi * real k * real n / real (length buffer)
      in (fst acc + buffer ! n * cos angle, snd acc + buffer ! n * sin angle))"

definition computeMagnitudeSpectrum :: "real list \<Rightarrow> real list" where
  \<comment> \<open>\<open>TimeShaperProcessor.computeMagnitudeSpectrum\<close>. The result is a
      \<open>Float32Array(N / 2)\<close>, of \<open>\<lfloor>N/2\<rfloor>\<close> entries; for odd \<open>N\<close> the loop's last write
      falls outside it and is dropped.\<close>
  "computeMagnitudeSpectrum buffer =
     (let N = length buffer
      in map (\<lambda>k. let acc = fold (dft_step buffer k) [0..<N] (0, 0)
                  in sqrt (fst acc * fst acc + snd acc * snd acc))
             [0..<N div 2])"

definition computeRMS :: "real list \<Rightarrow> real option" where
  \<comment> \<open>\<open>computeRMS\<close> (the same code in both classes); \<open>0/0\<close> on an empty buffer.\<close>
  "computeRMS buffer =
     (if length buffer = 0 then None
      else Some (sqrt (fold (\<lambda>i sum. sum + buffer ! i * buffer ! i) [0..<length buffer] 0
                       / real (length buffer))))"

definition computeZeroCrossingRate :: "real list \<Rightarrow> real option" where
  "computeZeroCrossingRate buffer =
     (if length buffer = 0 then None
      else Some (real (fold (\<lambda>i crossings.
                               if (buffer ! i \<ge> 0) \<noteq> (buffer ! (i - 1) \<ge> 0)
                               then crossings + 1 else crossings)
                            [1..<length buffer] (0::nat))
                 / real (length buffer)))"

definition centroid_of :: "real list \<Rightarrow> real" where
  \<comment> \<open>The loop and the guarded division shared by both \<open>computeSpectralCentroid\<close>.\<close>
  "centroid_of spectrum =
     (let acc = fold (\<lambda>i acc. (fst acc + real i * spectrum ! i, snd acc + spectrum ! i))
                     [0..<length spectrum] (0, 0)
      in if snd acc > 0 then fst acc / snd acc else 0)"

definition processor_computeSpectralCentroid :: "real list \<Rightarrow> real" where
  "processor_computeSpectralCentroid buffer = centroid_of (computeMagnitudeSpectrum buffer)"

record features =
  rms :: "real option"
  zcr :: "real option"
  spectralCentroid :: real
  spectralFlux :: "real option"

record message =
  msg_features :: features
  timestamp :: real

record processor =
  bufferSize :: nat
  buffer :: "real list"
  bufferIndex :: nat
  frameCount :: nat
  prevSpectrum :: "real list option"
  port :: "message list"

text \<open>
  The state of a \<open>TimeShaperProcessor\<close>: its fields, and in \<open>port\<close> the messages posted
  so far, oldest first. The constructor leaves \<open>prevSpectrum\<close> undefined.
\<close>

definition new_processor :: processor where
  "new_processor =
     \<lparr>bufferSize = 2048, buffer = replicate 2048 0, bufferIndex = 0, frameCount = 0,
      prevSpectrum = None, port = []\<rparr>"

definition processor_computeSpectralFlux :: "processor \<Rightarrow> real list \<Rightarrow> real option \<times> processor" where
  \<comment> \<open>\<open>TimeShaperProcessor.computeSpectralFlux\<close>: returns the flux and the processor with
      \<open>prevSpectrum\<close> replaced.\<close>
  "processor_computeSpectralFlux p buf =
     (let spectrum = computeMagnitudeSpectrum buf
      in case prevSpectrum p of
           None \<Rightarrow> (Some 0, p\<lparr>prevSpectrum := Some spectrum\<rparr>)
         | Some prev \<Rightarrow>
             (if length spectrum = 0 then None
              else Some (flux_sum spectrum prev / real (length spectrum)),
              p\<lparr>prevSpectrum := Some spectrum\<rparr>))"

definition extractFeatures :: "processor \<Rightarrow> real list \<Rightarrow> features \<times> processor" where
  "extractFeatures p buf =
     (let r = computeRMS buf;
          z = computeZeroCrossingRate buf;
          c = processor_computeSpectralCentroid buf;
          (f, p') = processor_computeSpectralFlux p buf
      in (\<lparr>rms = r, zcr = z, spectralCentroid = c, spectralFlux = f\<rparr>, p'))"

definition analyzeBuffer :: "real \<Rightarrow> processor \<Rightarrow> processor" where
  \<comment> \<open>\<open>sampleRate\<close> is a global of the worklet scope, here a parameter.\<close>
  "analyzeBuffer sampleRate p =
     (let (f, p') = extractFeatures p (buffer p)
      in p'\<lparr>port := port p' @
           [\<lparr>msg_features = f,
             timestamp = real (frameCount p) * real (bufferSize p) / sampleRate\<rparr>]\<rparr>)"

definition store_sample :: "real \<Rightarrow> real \<Rightarrow> processor \<Rightarrow> processor" where
  \<comment> \<open>The body of the loop of \<open>processAudioData\<close>. A write outside a typed array is
      dropped, as \<open>list_update\<close> does.\<close>
  "store_sample sampleRate x p =
     (let p1 = p\<lparr>buffer := (buffer p)[bufferIndex p := x], bufferIndex := bufferIndex p + 1\<rparr>
      in if bufferIndex p1 \<ge> bufferSize p1
         then (analyzeBuffer sampleRate p1)\<lparr>bufferIndex := 0\<rparr>
         else p1)"

definition processAudioData :: "real \<Rightarrow> real list \<Rightarrow> processor \<Rightarrow> processor" where
  "processAudioData sampleRate audioData p =
     (let p' = fold (store_sample sampleRate) audioData p
      in p'\<lparr>frameCount := frameCount p' + 1\<rparr>)"

definition process :: "real \<Rightarrow> real list list \<Rightarrow> processor \<Rightarrow> processor" where
  \<comment> \<open>\<open>process(inputs, outputs, parameters)\<close> on \<open>input = inputs[0]\<close>, the list of the
      channels of the first input; the copy to the output is left out.\<close>
  "process sampleRate input p =
     (case input of [] \<Rightarrow> p | inputChannel # _ \<Rightarrow> processAudioData sampleRate inputChannel p)"

section \<open>AudioEngine: energy segments and the timbral vector\<close>

definition computeMFCC :: "real list \<Rightarrow> (nat \<Rightarrow> real) \<Rightarrow> real list \<times> (nat \<Rightarrow> real)" where
  \<comment> \<open>\<open>new Array(13).fill(0).map(() => Math.random() - 0.5)\<close>. \<open>rnd\<close> is the sequence of
      the values that the coming calls of \<open>Math.random()\<close> return, each in \<open>[0, 1)\<close>;
      the function returns the vector and the sequence that remains.\<close>
  "computeMFCC window rnd = (map (\<lambda>j. rnd j - 0.5) [0..<13], \<lambda>j. rnd (j + 13))"

definition computeSpectralCentroid :: "real list \<Rightarrow> real" where
  "computeSpectralCentroid window = centroid_of (computeSpectrum window)"

fun rolloff_loop :: "real list \<Rightarrow> real \<Rightarrow> real \<Rightarrow> nat list \<Rightarrow> real" where
  \<comment> \<open>The loop of \<open>computeSpectralRolloff\<close> with its early return, and \<open>return 1\<close> after it.\<close>
  "rolloff_loop spectrum threshold cumulativeEnergy [] = 1"
| "rolloff_loop spectrum threshold cumulativeEnergy (i # is) =
     (if cumulativeEnergy + spectrum ! i \<ge> threshold
      then real i / real (length spectrum)
      else rolloff_loop spectrum threshold (cumulativeEnergy + spectrum ! i) is)"

definition computeSpectralRolloff :: "real list \<Rightarrow> real" where
  "computeSpectralRolloff window =
     (let spectrum = computeSpectrum window;
          totalEnergy = fold (\<lambda>val sum. sum + val) spectrum 0;
          threshold = totalEnergy * 0.85
      in rolloff_loop spectrum threshold 0 [0..<length spectrum])"

record segment_features =
  seg_rms :: "real option"
  seg_spectralCentroid :: real
  spectralRolloff :: real
  mfcc :: "real list"

record segment =
  seg_start :: real
  seg_end :: real
  energy :: "real option"
  seg_features :: segment_features

definition js_slice :: "real list \<Rightarrow> real \<Rightarrow> real \<Rightarrow> real list" where
  \<comment> \<open>\<open>xs.slice(a, b)\<close> for \<open>0 \<le> a \<le> b\<close>: both bounds are truncated to integers and cut
      at the length.\<close>
  "js_slice xs a b = take (nat \<lfloor>b\<rfloor> - nat \<lfloor>a\<rfloor>) (drop (nat \<lfloor>a\<rfloor>) xs)"

definition energy_step ::
  "real list \<Rightarrow> real \<Rightarrow> real \<Rightarrow> (nat \<Rightarrow> real) \<Rightarrow> segment \<times> (nat \<Rightarrow> real)" where
  \<comment> \<open>The body of the loop of \<open>analyzeEnergy\<close> at position \<open>i\<close>: the segment pushed (its
      \<open>energy\<close> is also the value pushed on the energy curve) and what is left of the
      random sequence.\<close>
  "energy_step channelData sampleRate i rnd =
     (let windowSize = sampleRate * 0.1;
          window = js_slice channelData i (i + windowSize);
          r = computeRMS window;
          (m, rnd') = computeMFCC window rnd
      in (\<lparr>seg_start = i / sampleRate, seg_end = (i + windowSize) / sampleRate, energy = r,
           seg_features = \<lparr>seg_rms = r, seg_spectralCentroid = computeSpectralCentroid window,
                            spectralRolloff = computeSpectralRolloff window, mfcc = m\<rparr>\<rparr>,
          rnd'))"

function energy_loop :: "real list \<Rightarrow> real \<Rightarrow> real \<Rightarrow> (nat \<Rightarrow> real) \<Rightarrow> segment list" where
  \<comment> \<open>\<open>for (let i = 0; i < channelData.length - windowSize; i += hopSize)\<close>, entered with
      a positive sample rate.\<close>
  "energy_loop channelData sampleRate i rnd =
     (if 0 < sampleRate \<and> i < real (length channelData) - sampleRate * 0.1
      then (let (sg, rnd') = energy_step channelData sampleRate i rnd
            in sg # energy_loop channelData sampleRate (i + sampleRate * 0.1 / 2) rnd')
      else [])"
  by pat_completeness auto
termination
proof (relation "measure (\<lambda>(channelData, sampleRate, i, rnd).
                   nat \<lceil>(real (length channelData) - sampleRate * 0.1 - i) / (sampleRate * 0.1 / 2)\<rceil>)",
       goal_cases)
  case 1
  show ?case by simp
next
  case (2 channelData sampleRate i rnd x xa y)
  define h where "h = sampleRate * 0.1 / 2"
  define q where "q = (real (length channelData) - sampleRate * 0.1 - i) / h"
  have h: "0 < h" using 2 by (simp add: h_def)
  have q: "0 < q" using 2 h by (simp add: q_def)
  have "(real (length channelData) - sampleRate * 0.1 - (i + h)) / h = q - 1"
    using h by (simp add: q_def field_simps)
  moreover have "nat \<lceil>q - 1\<rceil> < nat \<lceil>q\<rceil>" using q by linarith
  ultimately show ?case by (simp add: h_def q_def)
qed

declare energy_loop.simps [simp del]

definition analyzeEnergy ::
  "real list \<Rightarrow> real \<Rightarrow> (nat \<Rightarrow> real) \<Rightarrow> (real option list \<times> segment list) option" where
  \<comment> \<open>The result is (\<open>energy\<close>, \<open>segments\<close>). An \<open>AudioBuffer\<close> has a positive sample rate.
      With a sample rate of 0 the loop is not entered on empty data and never ends
      otherwise (\<open>i\<close> stays 0); with a negative one it never ends: \<open>None\<close>.\<close>
  "analyzeEnergy channelData sampleRate rnd =
     (if 0 < sampleRate
      then (let segments = energy_loop channelData sampleRate 0 rnd
            in Some (map energy segments, segments))
      else if sampleRate = 0 \<and> channelData = [] then Some ([], [])
      else None)"

section \<open>The processing queue of AudioEngine and VideoEngine\<close>

text \<open>
  Both engines hold \<open>processingQueue\<close> and \<open>isProcessing\<close> and share the code of
  \<open>processQueue\<close>. JavaScript runs each piece of synchronous code to its end, so the
  engine changes state in steps: a call of \<open>analyzeAudio\<close>/\<open>analyzeVideo\<close> (push, then
  \<open>processQueue()\<close> up to its \<open>await\<close>); the continuation of \<open>processQueue\<close> after the
  \<open>await\<close> when an analysis has settled (\<open>resolve\<close> or \<open>reject\<close>, then the \<open>finally\<close>
  block); a run of \<open>doStop\<close>, which \<open>BaseService.stop()\<close> calls on a started engine; and
  a run of \<open>doDestroy\<close>, which \<open>BaseService.destroy()\<close> calls after stopping. A call
  counts from its push: \<open>analyzeAudio\<close> first throws when the engine is not started.
  Three fields record what happened and are read by no step: \<open>called\<close> (the requests in
  call order), \<open>started\<close> (the requests whose \<open>performAnalysis\<close> was entered, which emits
  \<open>analysis-started\<close> first, in that order) and \<open>running\<close> (the analyses entered and not
  yet settled).
\<close>

record 'r engine =
  processingQueue :: "'r list"
  isProcessing :: bool
  called :: "'r list"
  started :: "'r list"
  running :: "'r list"

definition new_engine :: "'r engine" where
  "new_engine = \<lparr>processingQueue = [], isProcessing = False, called = [], started = [], running = []\<rparr>"

definition processQueue :: "'r engine \<Rightarrow> 'r engine" where
  \<comment> \<open>\<open>processQueue\<close> up to \<open>await this.performAnalysis(buffer)\<close>.\<close>
  "processQueue e =
     (if isProcessing e \<or> length (processingQueue e) = 0 then e
      else (case processingQueue e of
              [] \<Rightarrow> e
            | req # rest \<Rightarrow>
                e\<lparr>isProcessing := True, processingQueue := rest,
                  started := started e @ [req], running := running e @ [req]\<rparr>))"

definition analyze :: "'r \<Rightarrow> 'r engine \<Rightarrow> 'r engine" where
  \<comment> \<open>\<open>this.processingQueue.push({...}); this.processQueue()\<close>\<close>
  "analyze req e =
     processQueue (e\<lparr>processingQueue := processingQueue e @ [req], called := called e @ [req]\<rparr>)"

definition settle :: "'r \<Rightarrow> 'r engine \<Rightarrow> 'r engine" where
  \<comment> \<open>The continuation for a running analysis \<open>req\<close>, whether it resolved or rejected:
      \<open>this.isProcessing = false; if (this.processingQueue.length > 0) this.processQueue()\<close>.
      An analysis that is not running has no continuation.\<close>
  "settle req e =
     (if req \<in> set (running e)
      then (let e1 = e\<lparr>running := remove1 req (running e), isProcessing := False\<rparr>
            in if length (processingQueue e1) > 0 then processQueue e1 else e1)
      else e)"

datatype engine_kind = Audio | Video

definition doStop :: "engine_kind \<Rightarrow> 'r engine \<Rightarrow> 'r engine" where
  \<comment> \<open>\<open>VideoEngine.doStop\<close>: \<open>this.processingQueue = []; this.isProcessing = false\<close>, while
      an analysis that is in flight goes on. \<open>AudioEngine.doStop\<close> suspends the audio
      context and leaves both fields alone.\<close>
  "doStop kind e =
     (case kind of Audio \<Rightarrow> e | Video \<Rightarrow> e\<lparr>processingQueue := [], isProcessing := False\<rparr>)"

definition doDestroy :: "'r engine \<Rightarrow> 'r engine" where
  \<comment> \<open>\<open>doDestroy\<close> of both engines: \<open>this.processingQueue = []\<close>.\<close>
  "doDestroy e = e\<lparr>processingQueue := []\<rparr>"

datatype 'r event = Analyze 'r | Settle 'r | Stop | Destroy

fun step :: "engine_kind \<Rightarrow> 'r event \<Rightarrow> 'r engine \<Rightarrow> 'r engine" where
  "step kind (Analyze req) e = analyze req e"
| "step kind (Settle req) e = settle req e"
| "step kind Stop e = doStop kind e"
| "step kind Destroy e = doDestroy e"

definition run :: "engine_kind \<Rightarrow> 'r event list \<Rightarrow> 'r engine" where
  "run kind events = fold (step kind) events new_engine"





section \<open>VideoEngine: frames and frame difference\<close>

text \<open>
  An \<open>ImageData\<close>: \<open>data\<close> is a \<open>Uint8ClampedArray\<close> of bytes, four (red, green, blue,
  alpha) for each pixel, row by row. A read outside the array is \<open>undefined\<close>, and
  arithmetic on it is NaN: \<open>rd\<close> returns \<open>None\<close> there.
\<close>

record ImageData =
  data :: "8 word list"
  width :: nat
  height :: nat

definition rd :: "8 word list \<Rightarrow> nat \<Rightarrow> nat option" where
  "rd d i = (if i < length d then Some (unat (d ! i)) else None)"

function counter :: "nat \<Rightarrow> nat \<Rightarrow> nat \<Rightarrow> nat list" where
  \<comment> \<open>The values of \<open>i\<close> in \<open>for (i = start; i < bound; i += stride)\<close>.\<close>
  "counter i stride bound =
     (if 0 < stride \<and> i < bound then i # counter (i + stride) stride bound else [])"
  by pat_completeness auto
termination
  by (relation "measure (\<lambda>(i, stride, bound). bound - i)") auto

declare counter.simps [simp del]

definition nan_add :: "real option \<Rightarrow> real option \<Rightarrow> real option" where
  \<comment> \<open>\<open>a + b\<close> where either may be NaN.\<close>
  "nan_add a b = (case a of None \<Rightarrow> None | Some x \<Rightarrow> (case b of None \<Rightarrow> None | Some y \<Rightarrow> Some (x + y)))"

definition mean_of :: "real option \<Rightarrow> nat \<Rightarrow> real option" where
  \<comment> \<open>\<open>tot / n\<close> for a sum \<open>tot\<close> of \<open>n\<close> terms: with no term the sum is 0 and
      \<open>0 / 0\<close> is NaN.\<close>
  "mean_of tot n =
     (if n = 0 then None else (case tot of None \<Rightarrow> None | Some t \<Rightarrow> Some (t / real n)))"

definition pixel_difference :: "8 word list \<Rightarrow> 8 word list \<Rightarrow> nat \<Rightarrow> real option" where
  \<comment> \<open>\<open>diff\<close> in \<open>computeFrameDifference\<close> for the pixel at byte \<open>i\<close>.\<close>
  "pixel_difference data1 data2 i =
     (case rd data1 i of None \<Rightarrow> None | Some r1 \<Rightarrow>
      case rd data1 (i + 1) of None \<Rightarrow> None | Some g1 \<Rightarrow>
      case rd data1 (i + 2) of None \<Rightarrow> None | Some b1 \<Rightarrow>
      case rd data2 i of None \<Rightarrow> None | Some r2 \<Rightarrow>
      case rd data2 (i + 1) of None \<Rightarrow> None | Some g2 \<Rightarrow>
      case rd data2 (i + 2) of None \<Rightarrow> None | Some b2 \<Rightarrow>
        Some (sqrt ((real r2 - real r1)\<^sup>2 + (real g2 - real g1)\<^sup>2 + (real b2 - real b1)\<^sup>2)
              / (255 * sqrt 3)))"

definition computeFrameDifference :: "ImageData \<Rightarrow> ImageData \<Rightarrow> real option" where
  \<comment> \<open>The \<open>intensity\<close> returned: \<open>totalDiff / pixelCount\<close>.\<close>
  "computeFrameDifference frame1 frame2 =
     (let is = counter 0 4 (length (data frame1));
          totalDiff = fold (\<lambda>i totalDiff. nan_add totalDiff (pixel_difference (data frame1) (data frame2) i))
                           is (Some 0);
          pixelCount = length is
      in mean_of totalDiff pixelCount)"

section \<open>VideoEngine: motion\<close>

definition rdi :: "8 word list \<Rightarrow> int \<Rightarrow> nat option" where
  \<comment> \<open>A read at an index that may be negative.\<close>
  "rdi d i = (if 0 \<le> i then rd d (nat i) else None)"

definition block_pixel ::
  "ImageData \<Rightarrow> ImageData \<Rightarrow> int \<Rightarrow> int \<Rightarrow> real option \<times> nat \<Rightarrow> real option \<times> nat" where
  \<comment> \<open>The body of the inner loop of \<open>computeBlockError\<close>, on (\<open>error\<close>, \<open>pixelCount\<close>).\<close>
  "block_pixel frame1 frame2 idx1 idx2 acc =
     (if 0 \<le> idx1 \<and> idx1 < int (length (data frame1)) \<and>
         0 \<le> idx2 \<and> idx2 < int (length (data frame2))
      then (nan_add (fst acc)
              (case rdi (data frame1) idx1 of None \<Rightarrow> None | Some r1 \<Rightarrow>
               case rdi (data frame1) (idx1 + 1) of None \<Rightarrow> None | Some g1 \<Rightarrow>
               case rdi (data frame1) (idx1 + 2) of None \<Rightarrow> None | Some b1 \<Rightarrow>
               case rdi (data frame2) idx2 of None \<Rightarrow> None | Some r2 \<Rightarrow>
               case rdi (data frame2) (idx2 + 1) of None \<Rightarrow> None | Some g2 \<Rightarrow>
               case rdi (data frame2) (idx2 + 2) of None \<Rightarrow> None | Some b2 \<Rightarrow>
                 Some (\<bar>real r2 - real r1\<bar> + \<bar>real g2 - real g1\<bar> + \<bar>real b2 - real b1\<bar>)),
            snd acc + 1)
      else acc)"

definition computeBlockError ::
  "ImageData \<Rightarrow> ImageData \<Rightarrow> int \<Rightarrow> int \<Rightarrow> int \<Rightarrow> int \<Rightarrow> nat \<Rightarrow> real option" where
  "computeBlockError frame1 frame2 x1 y1 x2 y2 blockSize =
     (let w = int (width frame1);
          acc = fold (\<lambda>dy acc.
                   fold (\<lambda>dx acc.
                      block_pixel frame1 frame2
                        (((y1 + int dy) * w + (x1 + int dx)) * 4)
                        (((y2 + int dy) * w + (x2 + int dx)) * 4) acc)
                     [0..<blockSize] acc)
                  [0..<blockSize] (Some 0, 0)
      in if snd acc > 0
         then (case fst acc of None \<Rightarrow> None
               | Some error \<Rightarrow> Some (error / (real (snd acc) * 255 * 3)))
         else Some 1)"

datatype best = Infinity | Best real

definition less_best :: "real option \<Rightarrow> best \<Rightarrow> bool" where
  \<comment> \<open>\<open>value < best\<close>, where \<open>value\<close> may be NaN and \<open>best\<close> starts as \<open>Infinity\<close>.\<close>
  "less_best v b =
     (case v of None \<Rightarrow> False
      | Some x \<Rightarrow> (case b of Infinity \<Rightarrow> True | Best y \<Rightarrow> x < y))"

definition findBestMatch ::
  "ImageData \<Rightarrow> ImageData \<Rightarrow> int \<Rightarrow> int \<Rightarrow> nat \<Rightarrow> int \<Rightarrow> int \<times> int" where
  "findBestMatch frame1 frame2 x y blockSize searchRadius =
     (let acc = fold (\<lambda>dy acc.
                   fold (\<lambda>dx acc.
                      (case computeBlockError frame1 frame2 x y (x + dx) (y + dy) blockSize of
                         None \<Rightarrow> acc
                       | Some error \<Rightarrow>
                           if less_best (Some error) (snd acc) then ((dx, dy), Best error) else acc))
                     [- searchRadius..searchRadius] acc)
                  [- searchRadius..searchRadius] ((0, 0), Infinity)
      in fst acc)"

definition computeOpticalFlow :: "ImageData \<Rightarrow> ImageData \<Rightarrow> real \<times> real" where
  \<comment> \<open>(\<open>horizontal\<close>, \<open>vertical\<close>), with \<open>blockSize = 16\<close> and \<open>searchRadius = 8\<close>.\<close>
  "computeOpticalFlow frame1 frame2 =
     (let acc = fold (\<lambda>y acc.
                   fold (\<lambda>x (totalHorizontal, totalVertical, blockCount).
                      (let v = findBestMatch frame1 frame2 (int x) (int y) 16 8
                       in (totalHorizontal + fst v, totalVertical + snd v, blockCount + 1)))
                     (counter 0 16 (width frame1 - 16)) acc)
                  (counter 0 16 (height frame1 - 16)) (0, 0, 0 :: nat)
      in case acc of (totalHorizontal, totalVertical, blockCount) \<Rightarrow>
           (if blockCount > 0 then real_of_int totalHorizontal / real blockCount else 0,
            if blockCount > 0 then real_of_int totalVertical / real blockCount else 0))"

definition computeVariance :: "real option list \<Rightarrow> real option" where
  "computeVariance values =
     (case mean_of (fold (\<lambda>val sum. nan_add sum val) values (Some 0)) (length values) of
        None \<Rightarrow> None
      | Some mean \<Rightarrow>
          mean_of (fold (\<lambda>val sum. nan_add sum (map_option (\<lambda>v. (v - mean)\<^sup>2) val)) values (Some 0))
                  (length values))"

datatype motion_direction = DirStatic | DirHorizontal | DirVertical | DirMixed

datatype motion_class = MotionStatic | MotionLow | MotionMedium | MotionHigh

record MotionAnalysis =
  intensity :: "real option"
  direction :: motion_direction
  consistency :: "real option"
  classification :: motion_class

definition motion_step ::
  "ImageData list \<Rightarrow> nat \<Rightarrow> real option \<times> real \<times> real \<times> real option list
     \<Rightarrow> real option \<times> real \<times> real \<times> real option list" where
  \<comment> \<open>The body of the loop of \<open>analyzeMotion\<close>, on (\<open>totalMotion\<close>, \<open>horizontalMotion\<close>,
      \<open>verticalMotion\<close>, \<open>motionValues\<close>).\<close>
  "motion_step frames i acc =
     (case acc of (totalMotion, horizontalMotion, verticalMotion, motionValues) \<Rightarrow>
        (let motion = computeFrameDifference (frames ! (i - 1)) (frames ! i);
             vectors = computeOpticalFlow (frames ! (i - 1)) (frames ! i)
         in (nan_add totalMotion motion, horizontalMotion + \<bar>fst vectors\<bar>,
             verticalMotion + \<bar>snd vectors\<bar>, motionValues @ [motion])))"

definition analyzeMotion :: "ImageData list \<Rightarrow> MotionAnalysis" where
  "analyzeMotion frames =
     (if length frames < 2
      then \<lparr>intensity = Some 0, direction = DirStatic, consistency = Some 1,
            classification = MotionStatic\<rparr>
      else
        (case fold (motion_step frames) [1..<length frames] (Some 0, 0, 0, []) of
           (totalMotion, horizontalMotion, verticalMotion, motionValues) \<Rightarrow>
             (let avgMotion = map_option (\<lambda>t. t / real (length frames - 1)) totalMotion;
                  avgHorizontal = horizontalMotion / real (length frames - 1);
                  avgVertical = verticalMotion / real (length frames - 1);
                  variance = computeVariance motionValues
              in \<lparr>intensity = avgMotion,
                   direction =
                     (if js_lt avgMotion 0.1 then DirStatic
                      else if avgHorizontal > avgVertical * 1.5 then DirHorizontal
                      else if avgVertical > avgHorizontal * 1.5 then DirVertical
                      else DirMixed),
                   consistency = map_option (\<lambda>v. max 0 (1 - v)) variance,
                   classification =
                     (if js_lt avgMotion 0.1 then MotionStatic
                      else if js_lt avgMotion 0.3 then MotionLow
                      else if js_lt avgMotion 0.6 then MotionMedium
                      else MotionHigh)\<rparr>)))"

section \<open>VideoEngine: colour\<close>

text \<open>
  A colour \<open>{r, g, b, count}\<close>. A channel is a whole number, or NaN (\<open>None\<close>) when it
  was computed from a read outside the frame's data.
\<close>

record color =
  c_r :: "nat option"
  c_g :: "nat option"
  c_b :: "nat option"
  c_count :: nat

definition quantize :: "nat option \<Rightarrow> nat option" where
  \<comment> \<open>\<open>Math.floor(v / 32) * 32\<close>\<close>
  "quantize v = map_option (\<lambda>x. x div 32 * 32) v"

fun colorMap_add :: "nat option \<times> nat option \<times> nat option \<Rightarrow> color list \<Rightarrow> color list" where
  \<comment> \<open>\<open>if (colorMap.has(key)) colorMap.get(key).count++; else colorMap.set(key, {r, g, b, count: 1})\<close>
      on a \<open>Map\<close> kept as the list of its values in insertion order; the key \<open>`r,g,b`\<close>
      of an entry is the triple of its channels.\<close>
  "colorMap_add key [] = [\<lparr>c_r = fst key, c_g = fst (snd key), c_b = snd (snd key), c_count = 1\<rparr>]"
| "colorMap_add key (c # cs) =
     (if (c_r c, c_g c, c_b c) = key then c\<lparr>c_count := c_count c + 1\<rparr> # cs
      else c # colorMap_add key cs)"

definition extractDominantColors :: "ImageData \<Rightarrow> nat \<Rightarrow> color list" where
  \<comment> \<open>Every fourth pixel is sampled (\<open>i += 16\<close>); \<open>sort((a, b) => b.count - a.count)\<close> is a
      stable sort by falling count, then \<open>slice(0, count)\<close>.\<close>
  "extractDominantColors frame count =
     (let d = data frame;
          colorMap = fold (\<lambda>i m. colorMap_add (quantize (rd d i), quantize (rd d (i + 1)),
                                                quantize (rd d (i + 2))) m)
                          (counter 0 16 (length d)) []
      in take count (sort_key (\<lambda>c. - int (c_count c)) colorMap))"

definition color_temp :: "color \<Rightarrow> real option" where
  \<comment> \<open>\<open>(color.r - color.b + 255) / 510\<close>\<close>
  "color_temp c =
     (case c_r c of None \<Rightarrow> None | Some r \<Rightarrow>
      case c_b c of None \<Rightarrow> None | Some b \<Rightarrow> Some ((real r - real b + 255) / 510))"

definition computeColorTemperature :: "color list \<Rightarrow> real option" where
  "computeColorTemperature colors =
     (let acc = fold (\<lambda>c acc. (nan_add (fst acc)
                                  (map_option (\<lambda>t. t * real (c_count c)) (color_temp c)),
                                snd acc + c_count c))
                     colors (Some 0, 0)
      in if snd acc > 0
         then (case fst acc of None \<Rightarrow> None | Some weightedTemp \<Rightarrow> Some (weightedTemp / real (snd acc)))
         else Some 0.5)"

definition color_sat :: "color \<Rightarrow> real" where
  \<comment> \<open>\<open>max > 0 ? (max - min) / max : 0\<close>; with a NaN channel \<open>max\<close> is NaN and \<open>max > 0\<close>
      is false.\<close>
  "color_sat c =
     (case c_r c of None \<Rightarrow> 0 | Some r \<Rightarrow>
      case c_g c of None \<Rightarrow> 0 | Some g \<Rightarrow>
      case c_b c of None \<Rightarrow> 0 | Some b \<Rightarrow>
        (let mx = max r (max g b); mn = min r (min g b)
         in if mx > 0 then (real mx - real mn) / real mx else 0))"

definition computeSaturation :: "color list \<Rightarrow> real" where
  "computeSaturation colors =
     (let acc = fold (\<lambda>c acc. (fst acc + color_sat c * real (c_count c), snd acc + c_count c))
                     colors (0, 0 :: nat)
      in if snd acc > 0 then fst acc / real (snd acc) else 0)"

definition colorDistance :: "color \<Rightarrow> color \<Rightarrow> real option" where
  "colorDistance color1 color2 =
     (case c_r color1 of None \<Rightarrow> None | Some r1 \<Rightarrow>
      case c_g color1 of None \<Rightarrow> None | Some g1 \<Rightarrow>
      case c_b color1 of None \<Rightarrow> None | Some b1 \<Rightarrow>
      case c_r color2 of None \<Rightarrow> None | Some r2 \<Rightarrow>
      case c_g color2 of None \<Rightarrow> None | Some g2 \<Rightarrow>
      case c_b color2 of None \<Rightarrow> None | Some b2 \<Rightarrow>
        Some (sqrt ((real r1 - real r2)\<^sup>2 + (real g1 - real g2)\<^sup>2 + (real b1 - real b2)\<^sup>2)))"

definition nearest :: "color list \<Rightarrow> color \<Rightarrow> nat" where
  \<comment> \<open>\<open>nearestIndex\<close> after the loop over the centroids, from \<open>(0, Infinity)\<close>.\<close>
  "nearest centroids c =
     fst (fold (\<lambda>index acc.
                  if less_best (colorDistance c (centroids ! index)) (snd acc)
                  then (case colorDistance c (centroids ! index) of
                          None \<Rightarrow> acc | Some distance \<Rightarrow> (index, Best distance))
                  else acc)
               [0..<length centroids] (0, Infinity))"

definition weighted_total :: "(color \<Rightarrow> nat option) \<Rightarrow> color list \<Rightarrow> nat option" where
  \<comment> \<open>\<open>total += color.channel * color.count\<close> over a cluster.\<close>
  "weighted_total channel cluster =
     fold (\<lambda>c t. case t of None \<Rightarrow> None
                  | Some a \<Rightarrow> (case channel c of None \<Rightarrow> None | Some v \<Rightarrow> Some (a + v * c_count c)))
          cluster (Some 0)"

definition mean_channel :: "nat option \<Rightarrow> nat \<Rightarrow> nat option" where
  \<comment> \<open>\<open>Math.round(total / totalCount)\<close>; a total count of 0 comes with a total of 0.\<close>
  "mean_channel t totalCount =
     (case t of None \<Rightarrow> None
      | Some a \<Rightarrow> if totalCount = 0 then None
                  else Some (nat (js_round (real a / real totalCount))))"

definition cluster_centroid :: "color list \<Rightarrow> color" where
  "cluster_centroid cluster =
     (let totalCount = fold (\<lambda>c n. n + c_count c) cluster 0
      in \<lparr>c_r = mean_channel (weighted_total c_r cluster) totalCount,
          c_g = mean_channel (weighted_total c_g cluster) totalCount,
          c_b = mean_channel (weighted_total c_b cluster) totalCount,
          c_count = totalCount\<rparr>)"

definition kmeans_iteration :: "color list \<Rightarrow> color list \<Rightarrow> color list" where
  \<comment> \<open>One pass of the loop of \<open>clusterColors\<close>: every colour goes to the cluster of its
      nearest centroid, then the centroid of every cluster that is not empty is replaced.\<close>
  "kmeans_iteration colors centroids =
     map (\<lambda>index.
            (let cluster = filter (\<lambda>c. nearest centroids c = index) colors
             in if length cluster > 0 then cluster_centroid cluster else centroids ! index))
         [0..<length centroids]"

definition clusterColors :: "color list \<Rightarrow> nat \<Rightarrow> color list" where
  "clusterColors colors k =
     (if length colors \<le> k then colors
      else (kmeans_iteration colors ^^ 10) (take k colors))"

definition digit_char :: "nat \<Rightarrow> char" where
  "digit_char d = ''0123456789'' ! d"

function show_nat :: "nat \<Rightarrow> string" where
  \<comment> \<open>The decimal digits of a whole number, as a template literal prints it.\<close>
  "show_nat n = (if n < 10 then [digit_char n] else show_nat (n div 10) @ [digit_char (n mod 10)])"
  by pat_completeness auto
termination
  by (relation "measure (\<lambda>n. n)") auto

declare show_nat.simps [simp del]

definition show_channel :: "nat option \<Rightarrow> string" where
  "show_channel v = (case v of None \<Rightarrow> ''NaN'' | Some n \<Rightarrow> show_nat n)"

definition rgb_string :: "color \<Rightarrow> string" where
  \<comment> \<open>\<open>`rgb(${c.r},${c.g},${c.b})`\<close>\<close>
  "rgb_string c =
     ''rgb('' @ show_channel (c_r c) @ '','' @ show_channel (c_g c) @ '','' @ show_channel (c_b c) @ '')''"

datatype color_mood = Warm | Cool | Vibrant | Muted

record ColorAnalysis =
  dominantColors :: "string list"
  temperature :: "real option"
  saturation :: "real option"
  mood :: color_mood

definition analyzeColor :: "ImageData list \<Rightarrow> ColorAnalysis" where
  "analyzeColor frames =
     (let allColors = concat (map (\<lambda>frame. extractDominantColors frame 5) frames);
          totalTemperature =
            fold (\<lambda>frame t. nan_add t (computeColorTemperature (extractDominantColors frame 5)))
                 frames (Some 0);
          totalSaturation =
            fold (\<lambda>frame t. t + computeSaturation (extractDominantColors frame 5)) frames 0;
          avgTemperature = mean_of totalTemperature (length frames);
          avgSaturation = mean_of (Some totalSaturation) (length frames);
          dominant = clusterColors allColors 3
      in \<lparr>dominantColors = map rgb_string dominant,
          temperature = avgTemperature,
          saturation = avgSaturation,
          mood = (if js_gt avgTemperature 0.6 \<and> js_gt avgSaturation 0.6 then Warm
                  else if js_lt avgTemperature 0.4 \<and> js_gt avgSaturation 0.6 then Cool
                  else if js_gt avgSaturation 0.7 then Vibrant
                  else Muted)\<rparr>)"

section \<open>VideoEngine: scenes\<close>

definition computeFrameBrightness :: "ImageData \<Rightarrow> real option" where
  "computeFrameBrightness frame =
     (let d = data frame;
          is = counter 0 4 (length d);
          totalBrightness =
            fold (\<lambda>i t. nan_add t
                    (case rd d i of None \<Rightarrow> None | Some r \<Rightarrow>
                     case rd d (i + 1) of None \<Rightarrow> None | Some g \<Rightarrow>
                     case rd d (i + 2) of None \<Rightarrow> None | Some b \<Rightarrow>
                       Some ((0.299 * real r + 0.587 * real g + 0.114 * real b) / 255)))
                 is (Some 0)
      in mean_of totalBrightness (length is))"

definition edge_at :: "8 word list \<Rightarrow> nat \<Rightarrow> nat \<Rightarrow> bool" where
  \<comment> \<open>\<open>magnitude > 0.1\<close> at byte \<open>idx\<close> of an interior pixel (so \<open>idx \<ge> 4\<close> and
      \<open>idx \<ge> 4 * width\<close>); false when a read is outside the data.\<close>
  "edge_at d w idx =
     (case rd d (idx + 4) of None \<Rightarrow> False | Some e_right \<Rightarrow>
      case rd d (idx - 4) of None \<Rightarrow> False | Some e_left \<Rightarrow>
      case rd d (idx + w * 4) of None \<Rightarrow> False | Some e_below \<Rightarrow>
      case rd d (idx - w * 4) of None \<Rightarrow> False | Some e_above \<Rightarrow>
        (let gx = (real e_right - real e_left) / 2;
             gy = (real e_below - real e_above) / 2
         in sqrt (gx * gx + gy * gy) / 255 > 0.1))"

definition computeEdgeCount :: "ImageData \<Rightarrow> real" where
  "computeEdgeCount frame =
     (let acc = fold (\<lambda>y acc.
                   fold (\<lambda>x acc.
                      (if edge_at (data frame) (width frame) ((y * width frame + x) * 4)
                       then fst acc + 1 else fst acc, snd acc + 1))
                     [1..<width frame - 1] acc)
                  [1..<height frame - 1] (0 :: nat, 0 :: nat)
      in if snd acc > 0 then real (fst acc) / real (snd acc) else 0)"

datatype scene_type = Outdoor | Indoor | CloseUp | Wide | Medium

definition greenish :: "color \<Rightarrow> bool" where
  \<comment> \<open>\<open>c.g > c.r && c.g > c.b\<close>\<close>
  "greenish c =
     (case c_g c of None \<Rightarrow> False | Some g \<Rightarrow>
      case c_r c of None \<Rightarrow> False | Some r \<Rightarrow>
      case c_b c of None \<Rightarrow> False | Some b \<Rightarrow> g > r \<and> g > b)"

definition classifyScene :: "ImageData \<Rightarrow> scene_type \<times> real" where
  \<comment> \<open>(\<open>type\<close>, \<open>confidence\<close>)\<close>
  "classifyScene frame =
     (let brightness = computeFrameBrightness frame;
          colors = extractDominantColors frame 3;
          edgeCount = computeEdgeCount frame
      in if js_gt brightness 0.6 \<and> list_ex greenish colors then (Outdoor, 0.7)
         else if js_lt brightness 0.4 \<or> edgeCount > 0.3 then (Indoor, 0.6)
         else if edgeCount < 0.1 then (CloseUp, 0.8)
         else if edgeCount > 0.4 then (Wide, 0.7)
         else (Medium, 0.5))"

record scene =
  s_start :: real
  s_end :: real
  s_type :: scene_type
  s_confidence :: real

datatype js_error = TypeError

definition scene_step :: "ImageData list \<Rightarrow> real \<Rightarrow> nat \<Rightarrow> scene list \<times> real \<Rightarrow> scene list \<times> real" where
  \<comment> \<open>The body of the loop of \<open>analyzeScenes\<close>, on (\<open>scenes\<close>, \<open>currentSceneStart\<close>).\<close>
  "scene_step frames frameInterval i st =
     (if js_gt (computeFrameDifference (frames ! (i - 1)) (frames ! i)) 0.3
      then (let sceneEnd = real i * frameInterval;
                sceneType = classifyScene (frames ! (i - 1))
            in (fst st @ [\<lparr>s_start = snd st, s_end = sceneEnd, s_type = fst sceneType,
                            s_confidence = snd sceneType\<rparr>],
                sceneEnd))
      else st)"

definition analyzeScenes :: "ImageData list \<Rightarrow> real \<Rightarrow> js_error + scene list" where
  \<comment> \<open>With no frame the loop is not entered (and \<open>frameInterval\<close> is not used); the final
      scene then reads \<open>frames[-1].data\<close>, a \<open>TypeError\<close>.\<close>
  "analyzeScenes frames duration =
     (let frameInterval = duration / real (length frames);
          st = fold (scene_step frames frameInterval) [1..<length frames] ([], 0)
      in if snd st < duration
         then (if length frames = 0 then Inl TypeError
               else (let sceneType = classifyScene (frames ! (length frames - 1))
                     in Inr (fst st @ [\<lparr>s_start = snd st, s_end = duration, s_type = fst sceneType,
                                         s_confidence = snd sceneType\<rparr>])))
         else Inr (fst st))"

fun chained :: "real \<Rightarrow> scene list \<Rightarrow> real \<Rightarrow> bool" where
  \<comment> \<open>The scenes go from \<open>a\<close> to \<open>b\<close>: the first starts at \<open>a\<close>, each ends where the next
      starts and after its own start, the last ends at \<open>b\<close>.\<close>
  "chained a [] b = (a = b)"
| "chained a (s # ss) b = (s_start s = a \<and> s_start s < s_end s \<and> chained (s_end s) ss b)"

definition solid_frame :: "nat \<Rightarrow> nat \<Rightarrow> 8 word \<Rightarrow> 8 word \<Rightarrow> 8 word \<Rightarrow> ImageData" where
  \<comment> \<open>A frame of \<open>w\<close> by \<open>h\<close> opaque pixels of one colour.\<close>
  "solid_frame w h r g b = \<lparr>data = concat (replicate (w * h) [r, g, b, 255]), width = w, height = h\<rparr>"

definition black_pixel :: ImageData where
  "black_pixel = solid_frame 1 1 0 0 0"

definition white_pixel :: ImageData where
  "white_pixel = solid_frame 1 1 255 255 255"

text \<open>Predicates on colours, for the statements about the palette.\<close>

definition channel_le :: "nat \<Rightarrow> nat option \<Rightarrow> bool" where
  "channel_le m v = (case v of None \<Rightarrow> False | Some x \<Rightarrow> x \<le> m)"

definition quantized :: "nat option \<Rightarrow> bool" where
  "quantized v = (case v of None \<Rightarrow> False | Some x \<Rightarrow> 32 dvd x \<and> x \<le> 224)"

definition in_palette :: "color \<Rightarrow> bool" where
  "in_palette c = (channel_le 224 (c_r c) \<and> channel_le 224 (c_g c) \<and> channel_le 224 (c_b c) \<and> 0 < c_count c)"

definition sampled :: "color \<Rightarrow> bool" where
  "sampled c = (quantized (c_r c) \<and> quantized (c_g c) \<and> quantized (c_b c) \<and> 0 < c_count c)"

section \<open>The spectrum and the flux as the specification words them\<close>

definition hann_window :: "real list \<Rightarrow> real list" where
  \<comment> \<open>The samples multiplied by the Hann window.\<close>
  "hann_window samples = map (\<lambda>n. samples ! n * hann (length samples) n) [0..<length samples]"

definition dft_magnitude :: "real list \<Rightarrow> nat \<Rightarrow> real" where
  \<comment> \<open>\<open>sqrt(real\<^sup>2 + imag\<^sup>2)\<close>, \<open>real\<close> and \<open>imag\<close> the sums over all \<open>n\<close> in \<open>[0, N)\<close> of the
      samples against the cosine and the sine of \<open>-2\<pi>kn/N\<close>.\<close>
  "dft_magnitude samples k =
     (let N = length samples;
          re = (\<Sum>n\<leftarrow>[0..<N]. samples ! n * cos (- 2 * pi * real k * real n / real N));
          im = (\<Sum>n\<leftarrow>[0..<N]. samples ! n * sin (- 2 * pi * real k * real n / real N))
      in sqrt (re\<^sup>2 + im\<^sup>2))"

definition spec_magnitude_spectrum :: "real list \<Rightarrow> real list" where
  \<comment> \<open>The specification's contract: Hann window first, then the magnitudes of the first
      \<open>N/2\<close> bins.\<close>
  "spec_magnitude_spectrum samples =
     map (dft_magnitude (hann_window samples)) [0..<length samples div 2]"

definition rectified_mean :: "real list \<Rightarrow> real list \<Rightarrow> real" where
  \<comment> \<open>The mean over the bins of the positive part of current minus previous.\<close>
  "rectified_mean current previous =
     (\<Sum>(c, p)\<leftarrow>zip current previous. max 0 (c - p)) / real (length current)"

section \<open>Tempo estimation: properties\<close>

lemma length_intervals_of: "length (intervals_of xs) = length xs - 1"
  by (induction xs rule: intervals_of.induct) auto

lemma histogram_bump_total:
  "sum_list (map snd (histogram_bump b h)) = Suc (sum_list (map snd h))"
  by (induction h) auto

lemma build_histogram_total_aux:
  "sum_list (map snd (fold (\<lambda>interval h. histogram_bump (bucket_of interval) h) ivs h))
     = length ivs + sum_list (map snd h)"
  by (induction ivs arbitrary: h) (auto simp: histogram_bump_total)

lemma build_histogram_total: "sum_list (map snd (build_histogram ivs)) = length ivs"
  by (simp add: build_histogram_def build_histogram_total_aux)

lemma find_peak_aux:
  fixes m t :: nat and b :: real
  assumes "m \<le> t" and "b = 0.5 \<or> (0.2 < b \<and> b < 2.0)"
  shows "(case fold (\<lambda>(interval, count) (maxCount, bestInterval).
             if count > maxCount \<and> interval > 0.2 \<and> interval < 2.0
             then (count, interval) else (maxCount, bestInterval)) h (m, b)
          of (m', b') \<Rightarrow> m' \<le> t + sum_list (map snd h) \<and> (b' = 0.5 \<or> (0.2 < b' \<and> b' < 2.0)))"
  using assms
proof (induction h arbitrary: m b t)
  case Nil
  then show ?case by simp
next
  case (Cons e h)
  obtain k c where e: "e = (k, c)" by (cases e)
  show ?case
  proof (cases "c > m \<and> k > 0.2 \<and> k < 2.0")
    case True
    have "c \<le> t + c" by simp
    from Cons.IH [OF this, of k] True e show ?thesis
      by (simp add: add.assoc)
  next
    case False
    from Cons.prems have "m \<le> t + c" by simp
    from Cons.IH [OF this Cons.prems(2)] False e show ?thesis
      by (auto simp: add.assoc)
  qed
qed

lemma find_peak_bounds:
  "fst (find_peak h) \<le> sum_list (map snd h) \<and>
   (snd (find_peak h) = 0.5 \<or> (0.2 < snd (find_peak h) \<and> snd (find_peak h) < 2.0))"
  using find_peak_aux [of 0 0 "0.5" h] unfolding find_peak_def
  by (auto split: prod.splits)

lemma bpm_of_interval:
  fixes b :: real
  assumes "0.2 < b" "b < 2.0"
  shows "30 \<le> js_round (60 / b) \<and> js_round (60 / b) \<le> 300"
proof -
  have "30 < 60 / b" using assms by (simp add: field_simps)
  moreover have "60 / b < 300" using assms by (simp add: field_simps)
  ultimately show ?thesis unfolding js_round_def by linarith
qed

text \<open>
  C4. Whenever fewer than 4 onsets were detected, tempo estimation returns bpm = 120 and
  confidence = 0; this is the first branch of \<open>estimateTempo\<close>, taken before the
  inter-onset intervals and the histogram are built. The same holds of \<open>detectTempo\<close>,
  which hands the detected onsets to \<open>estimateTempo\<close>.
\<close>

theorem estimateTempo_few_onsets:
  "(length onsets < 4 \<longrightarrow> estimateTempo onsets sampleRate = \<lparr>bpm = 120, confidence = 0\<rparr>) \<and>
   (length (detectOnsets channelData sampleRate) < 4 \<longrightarrow>
      detectTempo channelData sampleRate = \<lparr>bpm = 120, confidence = 0\<rparr>)"
  by (simp add: estimateTempo_def detectTempo_def)

theorem estimateTempo_few_onsets_witness:
  "length [0, 0.5, 1 :: real] < 4 \<and>
   estimateTempo [0, 0.5, 1] 44100 = \<lparr>bpm = 120, confidence = 0\<rparr> \<and>
   length (detectOnsets (replicate 1024 0) 44100) < 4 \<and>
   detectTempo (replicate 1024 0) 44100 = \<lparr>bpm = 120, confidence = 0\<rparr>"
proof -
  have a: "length [0, 0.5, 1 :: real] < 4" by simp
  have b: "length (detectOnsets (replicate 1024 0) 44100) < 4"
    by (simp add: detectOnsets_def detectOnsets_loop.simps)
  from a b estimateTempo_few_onsets [of "[0, 0.5, 1]" 44100 "replicate 1024 0"]
  show ?thesis by blast
qed

text \<open>
  C5. For every list of onsets the tempo that \<open>estimateTempo\<close> returns has
  30 \<le> bpm \<le> 300 and 0 \<le> confidence \<le> 1; hence so has the tempo that \<open>detectTempo\<close>
  returns for every audio input (channel data of any length, at a positive sample rate).
\<close>

theorem estimateTempo_range:
  "30 \<le> bpm (estimateTempo onsets rate) \<and> bpm (estimateTempo onsets rate) \<le> 300 \<and>
   0 \<le> confidence (estimateTempo onsets rate) \<and>
   confidence (estimateTempo onsets rate) \<le> 1 \<and>
   (0 < sampleRate \<longrightarrow>
      30 \<le> bpm (detectTempo channelData sampleRate) \<and>
      bpm (detectTempo channelData sampleRate) \<le> 300 \<and>
      0 \<le> confidence (detectTempo channelData sampleRate) \<and>
      confidence (detectTempo channelData sampleRate) \<le> 1)"
proof -
  have main: "30 \<le> bpm (estimateTempo xs sr) \<and> bpm (estimateTempo xs sr) \<le> 300 \<and>
      0 \<le> confidence (estimateTempo xs sr) \<and> confidence (estimateTempo xs sr) \<le> 1" for xs sr
  proof (cases "length xs < 4")
    case True
    then show ?thesis by (simp add: estimateTempo_def)
  next
    case False
    define h where "h = build_histogram (intervals_of xs)"
    define n where "n = length (intervals_of xs)"
    have n: "0 < n" using False by (simp add: n_def length_intervals_of)
    have tot: "sum_list (map snd h) = n" by (simp add: h_def n_def build_histogram_total)
    from find_peak_bounds [of h] tot
    have m: "fst (find_peak h) \<le> n"
      and b: "snd (find_peak h) = 0.5 \<or> (0.2 < snd (find_peak h) \<and> snd (find_peak h) < 2.0)"
      by auto
    have eq: "estimateTempo xs sr =
        \<lparr>bpm = js_round (60 / snd (find_peak h)), confidence = real (fst (find_peak h)) / real n\<rparr>"
      using False by (simp add: estimateTempo_def h_def n_def Let_def split: prod.splits)
    have bp: "30 \<le> js_round (60 / snd (find_peak h)) \<and> js_round (60 / snd (find_peak h)) \<le> 300"
    proof (cases "snd (find_peak h) = 0.5")
      case True
      have "js_round (60 / (0.5::real)) = 120" by (simp add: js_round_def)
      then show ?thesis by (simp only: True) simp
    next
      case False
      with b bpm_of_interval show ?thesis by blast
    qed
    have cf: "0 \<le> real (fst (find_peak h)) / real n \<and> real (fst (find_peak h)) / real n \<le> 1"
      using m n by simp
    from eq bp cf show ?thesis by simp
  qed
  from main [of onsets rate] main [of "detectOnsets channelData sampleRate" sampleRate]
  show ?thesis by (simp add: detectTempo_def)
qed

lemma estimateTempo_click_track:
  "estimateTempo [0, 0.5, 1, 1.5, 2] rate = \<lparr>bpm = 120, confidence = 1\<rparr>"
proof -
  have b: "bucket_of (1 / 2) = 1 / 2" by (simp add: bucket_of_def js_round_def)
  have "build_histogram [1 / 2, 1 / 2, 1 / 2, 1 / 2] = [(1 / 2, 4)]"
    by (simp add: build_histogram_def b)
  then show ?thesis
    by (simp add: estimateTempo_def find_peak_def js_round_def)
qed

theorem estimateTempo_range_witness:
  "estimateTempo [0, 0.5, 1, 1.5, 2] 44100 = \<lparr>bpm = 120, confidence = 1\<rparr> \<and>
   (0::real) < 44100 \<and>
   30 \<le> bpm (detectTempo (replicate 1024 0) 44100) \<and>
   bpm (detectTempo (replicate 1024 0) 44100) \<le> 300 \<and>
   0 \<le> confidence (detectTempo (replicate 1024 0) 44100) \<and>
   confidence (detectTempo (replicate 1024 0) 44100) \<le> 1"
proof -
  have r: "(0::real) < 44100" by simp
  from estimateTempo_range [of "[0, 0.5, 1, 1.5, 2]" 44100 44100 "replicate 1024 0"] r
    estimateTempo_click_track [of 44100]
  show ?thesis by blast
qed

section \<open>Magnitude spectrum: properties\<close>

lemma flux_fold_aux:
  fixes current previous :: "real list"
  shows "fold (\<lambda>i flux. if i < length previous \<and> current ! i - previous ! i > 0
             then flux + (current ! i - previous ! i) else flux) [0..<n] a
   = a + (\<Sum>i\<leftarrow>[0..<n]. if i < length previous then max 0 (current ! i - previous ! i) else 0)"
  by (induction n arbitrary: a) (auto simp: max_def)

lemma zip_sum_nth:
  "length xs = length ys \<Longrightarrow>
   (\<Sum>(c, p)\<leftarrow>zip xs ys. f c p) = (\<Sum>i\<leftarrow>[0..<length xs]. f (xs ! i) (ys ! i))"
proof -
  assume l: "length xs = length ys"
  have "zip xs ys = map (\<lambda>i. (xs ! i, ys ! i)) [0..<length xs]"
    using l by (intro nth_equalityI) auto
  then show ?thesis by (simp add: comp_def)
qed

lemma flux_sum_eq:
  assumes "length current = length previous"
  shows "flux_sum current previous = (\<Sum>(c, p)\<leftarrow>zip current previous. max 0 (c - p))"
proof -
  have "flux_sum current previous =
     (\<Sum>i\<leftarrow>[0..<length current]. if i < length previous then max 0 (current ! i - previous ! i) else 0)"
    unfolding flux_sum_def by (simp only: flux_fold_aux)
  also have "\<dots> = (\<Sum>i\<leftarrow>[0..<length current]. max 0 (current ! i - previous ! i))"
    using assms by (intro arg_cong [where f = sum_list] map_cong) auto
  finally show ?thesis using assms by (simp add: zip_sum_nth)
qed

lemma dft_fold_aux:
  "fold (dft_step buf k) [0..<n] a =
     (fst a + (\<Sum>n\<leftarrow>[0..<n]. buf ! n * cos (- 2 * pi * real k * real n / real (length buf))),
      snd a + (\<Sum>n\<leftarrow>[0..<n]. buf ! n * sin (- 2 * pi * real k * real n / real (length buf))))"
  by (induction n arbitrary: a) (auto simp: dft_step_def Let_def)

lemma computeMagnitudeSpectrum_eq:
  "computeMagnitudeSpectrum buf = map (dft_magnitude buf) [0..<length buf div 2]"
  by (simp add: computeMagnitudeSpectrum_def dft_magnitude_def dft_fold_aux Let_def power2_eq_square)

lemma computeSpectrum_eq:
  "computeSpectrum window = map (\<lambda>i. \<bar>hann_window window ! i\<bar>) [0..<length window div 2]"
  by (simp add: computeSpectrum_def hann_window_def Let_def)

lemma length_hann_window: "length (hann_window samples) = length samples"
  by (simp add: hann_window_def)

lemma spec_bin0: "spec_magnitude_spectrum [0, 1, 0, 0] ! 0 = 3 / 4"
proof -
  have w: "hann_window [0, 1, 0, 0] = [0, 3 / 4, 0, 0]"
    using cos_120 by (simp add: hann_window_def hann_def)
  show ?thesis
    by (simp add: spec_magnitude_spectrum_def w dft_magnitude_def)
qed

lemma processor_bin0: "computeMagnitudeSpectrum [0, 1, 0, 0] ! 0 = 1"
  by (simp add: computeMagnitudeSpectrum_eq dft_magnitude_def)

lemma engine_bin0: "computeSpectrum [0, 1, 0, 0] ! 0 = 0"
  by (simp add: computeSpectrum_eq hann_window_def hann_def)

text \<open>
  C1, as stated, fails for both routines. On the window \<open>[0, 1, 0, 0]\<close> the contract
  (Hann window, then the magnitude of the direct sum) gives 3/4 in bin 0; the processor's
  \<open>computeMagnitudeSpectrum\<close> gives 1, because it applies no window, and the engine's
  \<open>computeSpectrum\<close> gives 0, because it sums nothing: bin 0 is the absolute value of
  windowed sample 0.
\<close>

theorem magnitude_spectrum_contract_counterexample:
  "computeMagnitudeSpectrum [0, 1, 0, 0] ! 0 = 1 \<and>
   computeSpectrum [0, 1, 0, 0] ! 0 = 0 \<and>
   spec_magnitude_spectrum [0, 1, 0, 0] ! 0 = 3 / 4 \<and>
   computeMagnitudeSpectrum [0, 1, 0, 0] \<noteq> spec_magnitude_spectrum [0, 1, 0, 0] \<and>
   computeSpectrum [0, 1, 0, 0] \<noteq> spec_magnitude_spectrum [0, 1, 0, 0]"
proof -
  have a: "computeMagnitudeSpectrum [0, 1, 0, 0] \<noteq> spec_magnitude_spectrum [0, 1, 0, 0]"
  proof
    assume "computeMagnitudeSpectrum [0, 1, 0, 0] = spec_magnitude_spectrum [0, 1, 0, 0]"
    then have "computeMagnitudeSpectrum [0, 1, 0, 0] ! 0 = spec_magnitude_spectrum [0, 1, 0, 0] ! 0"
      by simp
    then show False by (simp add: processor_bin0 spec_bin0)
  qed
  have b: "computeSpectrum [0, 1, 0, 0] \<noteq> spec_magnitude_spectrum [0, 1, 0, 0]"
  proof
    assume "computeSpectrum [0, 1, 0, 0] = spec_magnitude_spectrum [0, 1, 0, 0]"
    then have "computeSpectrum [0, 1, 0, 0] ! 0 = spec_magnitude_spectrum [0, 1, 0, 0] ! 0"
      by simp
    then show False by (simp add: engine_bin0 spec_bin0)
  qed
  from a b processor_bin0 engine_bin0 spec_bin0 show ?thesis by blast
qed

text \<open>
  C1, amended. For every buffer of length N, the processor's \<open>computeMagnitudeSpectrum\<close>
  returns, for each of the first N/2 bins k, \<open>sqrt(real\<^sup>2 + imag\<^sup>2)\<close> of the direct sums of
  the samples as they are (no Hann window) against the cosine and sine of \<open>-2\<pi>kn/N\<close>.
  For every window of length N, the engine's \<open>computeSpectrum\<close> applies the Hann window
  \<open>0.5 (1 - cos(2\<pi>i/(N-1)))\<close> and returns, for each of the first N/2 indices i, the
  absolute value of windowed sample i (no sum over n). The contract of the
  specification is the processor's transform applied to the engine's windowed samples.
\<close>

theorem magnitude_spectrum_amended:
  "computeMagnitudeSpectrum buf = map (dft_magnitude buf) [0..<length buf div 2] \<and>
   computeSpectrum window = map (\<lambda>i. \<bar>hann_window window ! i\<bar>) [0..<length window div 2] \<and>
   spec_magnitude_spectrum samples = computeMagnitudeSpectrum (hann_window samples)"
  by (simp add: computeMagnitudeSpectrum_eq computeSpectrum_eq spec_magnitude_spectrum_def
      length_hann_window)

section \<open>Spectral flux: properties\<close>

lemma impulse_spectrum: "computeMagnitudeSpectrum [1, 0, 0, 0] = [1, 1]"
  by (simp add: computeMagnitudeSpectrum_eq dft_magnitude_def)

text \<open>
  C7. For two spectra of equal length, the engine's \<open>computeSpectralFlux\<close> is the mean
  over the bins of the rectified differences current minus previous (NaN when there is
  no bin). The processor's \<open>computeSpectralFlux\<close> returns 0 and keeps the spectrum of the
  buffer as the previous one when there was none; otherwise it returns the same mean
  against the previous spectrum and replaces that by the current one. In the engine,
  the first window of \<open>detectOnsets\<close> has no previous spectrum: no flux is computed, no
  onset is recorded, and the spectrum is kept for the next window.
\<close>

theorem spectral_flux_rectified_mean:
  "length current = length previous \<Longrightarrow>
   computeSpectralFlux current previous =
     (if current = [] then None else Some (rectified_mean current previous)) \<and>
   (prevSpectrum p = None \<longrightarrow>
      processor_computeSpectralFlux p buf =
        (Some 0, p\<lparr>prevSpectrum := Some (computeMagnitudeSpectrum buf)\<rparr>)) \<and>
   (prevSpectrum q = Some previous \<and> computeMagnitudeSpectrum buf = current \<longrightarrow>
      processor_computeSpectralFlux q buf =
        (if current = [] then None else Some (rectified_mean current previous),
         q\<lparr>prevSpectrum := Some current\<rparr>)) \<and>
   onset_step audioData sampleRate i (None, onsets) =
     (Some (computeSpectrum (take 1024 (drop i audioData))), onsets)"
  by (auto simp: computeSpectralFlux_def processor_computeSpectralFlux_def rectified_mean_def
      flux_sum_eq onset_step_def Let_def)

theorem spectral_flux_rectified_mean_witness:
  "length [1, 1 :: real] = length [0, 2 :: real] \<and>
   computeSpectralFlux [1, 1] [0, 2] = Some (1 / 2) \<and>
   prevSpectrum new_processor = None \<and>
   processor_computeSpectralFlux new_processor [1, 0, 0, 0] =
     (Some 0, new_processor\<lparr>prevSpectrum := Some [1, 1]\<rparr>) \<and>
   processor_computeSpectralFlux (new_processor\<lparr>prevSpectrum := Some [0, 2]\<rparr>) [1, 0, 0, 0] =
     (Some (1 / 2), new_processor\<lparr>prevSpectrum := Some [1, 1]\<rparr>)"
proof -
  have l: "length [1, 1 :: real] = length [0, 2 :: real]" by simp
  have n: "prevSpectrum new_processor = None" by (simp add: new_processor_def)
  have s: "prevSpectrum (new_processor\<lparr>prevSpectrum := Some [0, 2]\<rparr>) = Some [0, 2]" by simp
  have m: "rectified_mean [1, 1] [0, 2] = 1 / 2" by (simp add: rectified_mean_def)
  from spectral_flux_rectified_mean [OF l, of new_processor "[1, 0, 0, 0]"
      "new_processor\<lparr>prevSpectrum := Some [0, 2]\<rparr>"] n s m impulse_spectrum
  show ?thesis by simp
qed

section \<open>The streaming accumulator: timestamps\<close>

lemma analyzeBuffer_fields:
  "bufferSize (analyzeBuffer sr p) = bufferSize p"
  "frameCount (analyzeBuffer sr p) = frameCount p"
  "length (buffer (analyzeBuffer sr p)) = length (buffer p)"
  "map timestamp (port (analyzeBuffer sr p)) =
     map timestamp (port p) @ [real (frameCount p) * real (bufferSize p) / sr]"
  by (simp_all add: analyzeBuffer_def extractFeatures_def processor_computeSpectralFlux_def
      Let_def split: prod.splits option.splits)

lemma store_sample_below:
  assumes "bufferIndex p + 1 < bufferSize p"
  shows "bufferSize (store_sample sr x p) = bufferSize p"
    and "frameCount (store_sample sr x p) = frameCount p"
    and "bufferIndex (store_sample sr x p) = bufferIndex p + 1"
    and "port (store_sample sr x p) = port p"
  using assms by (simp_all add: store_sample_def Let_def)

lemma store_sample_fill:
  assumes "bufferIndex p + 1 \<ge> bufferSize p"
  shows "bufferSize (store_sample sr x p) = bufferSize p"
    and "frameCount (store_sample sr x p) = frameCount p"
    and "bufferIndex (store_sample sr x p) = 0"
    and "map timestamp (port (store_sample sr x p)) =
           map timestamp (port p) @ [real (frameCount p) * real (bufferSize p) / sr]"
  using assms by (simp_all add: store_sample_def Let_def analyzeBuffer_fields)

lemma fold_store_below:
  "bufferIndex p + length xs < bufferSize p \<Longrightarrow>
   bufferSize (fold (store_sample sr) xs p) = bufferSize p \<and>
   frameCount (fold (store_sample sr) xs p) = frameCount p \<and>
   bufferIndex (fold (store_sample sr) xs p) = bufferIndex p + length xs \<and>
   port (fold (store_sample sr) xs p) = port p"
proof (induction xs arbitrary: p)
  case Nil
  then show ?case by simp
next
  case (Cons x xs)
  from Cons.prems have s: "bufferIndex p + 1 < bufferSize p" by simp
  have "bufferIndex (store_sample sr x p) + length xs < bufferSize (store_sample sr x p)"
    using Cons.prems by (simp add: store_sample_below [OF s])
  from Cons.IH [OF this] show ?case
    by (simp add: store_sample_below [OF s])
qed

lemma fold_store_exact:
  assumes "bufferIndex p + length xs = bufferSize p" and "xs \<noteq> []"
  shows "bufferSize (fold (store_sample sr) xs p) = bufferSize p \<and>
   frameCount (fold (store_sample sr) xs p) = frameCount p \<and>
   bufferIndex (fold (store_sample sr) xs p) = 0 \<and>
   map timestamp (port (fold (store_sample sr) xs p)) =
     map timestamp (port p) @ [real (frameCount p) * real (bufferSize p) / sr]"
proof -
  from assms(2) obtain ys y where xs: "xs = ys @ [y]" by (cases xs rule: rev_cases) auto
  define q where "q = fold (store_sample sr) ys p"
  have b: "bufferIndex p + length ys < bufferSize p" using assms(1) xs by simp
  note q = fold_store_below [OF b, of sr, folded q_def]
  have f: "bufferIndex q + 1 \<ge> bufferSize q" using q assms(1) xs by simp
  have "fold (store_sample sr) xs p = store_sample sr y q" by (simp add: xs q_def)
  then show ?thesis using store_sample_fill [OF f, of sr y] q by simp
qed

lemma processAudioData_below:
  assumes "bufferIndex p + length xs < bufferSize p"
  shows "bufferSize (processAudioData sr xs p) = bufferSize p \<and>
   frameCount (processAudioData sr xs p) = frameCount p + 1 \<and>
   bufferIndex (processAudioData sr xs p) = bufferIndex p + length xs \<and>
   port (processAudioData sr xs p) = port p"
  using fold_store_below [OF assms, of sr] by (simp add: processAudioData_def Let_def)

lemma processAudioData_exact:
  assumes "bufferIndex p + length xs = bufferSize p" and "xs \<noteq> []"
  shows "bufferSize (processAudioData sr xs p) = bufferSize p \<and>
   frameCount (processAudioData sr xs p) = frameCount p + 1 \<and>
   bufferIndex (processAudioData sr xs p) = 0 \<and>
   map timestamp (port (processAudioData sr xs p)) =
     map timestamp (port p) @ [real (frameCount p) * real (bufferSize p) / sr]"
  using fold_store_exact [OF assms, of sr] by (simp add: processAudioData_def Let_def)

lemma chunks_below:
  "bufferIndex p + j * c < bufferSize p \<Longrightarrow>
   bufferSize (fold (process sr) (replicate j [replicate c x]) p) = bufferSize p \<and>
   frameCount (fold (process sr) (replicate j [replicate c x]) p) = frameCount p + j \<and>
   bufferIndex (fold (process sr) (replicate j [replicate c x]) p) = bufferIndex p + j * c \<and>
   port (fold (process sr) (replicate j [replicate c x]) p) = port p"
proof (induction j arbitrary: p)
  case 0
  then show ?case by simp
next
  case (Suc j)
  from Suc.prems have s: "bufferIndex p + length (replicate c x) < bufferSize p" by simp
  note h = processAudioData_below [OF s, of sr]
  have "bufferIndex (processAudioData sr (replicate c x) p) + j * c
          < bufferSize (processAudioData sr (replicate c x) p)"
    using Suc.prems h by simp
  from Suc.IH [OF this] h show ?case by (simp add: process_def)
qed

text \<open>
  C6 fails on the code. \<open>frameCount\<close> is incremented once per call of
  \<open>processAudioData\<close>, after the loop, not once per fill. With sixteen calls of
  \<open>process\<close> on one channel of 128 samples at 48000 Hz, the buffer of 2048 samples
  fills for the first time during the sixteenth call, when \<open>frameCount\<close> is still 15:
  the one frame posted is stamped 15 * 2048 / 48000 = 0.64 s, where the 2048 samples
  processed are 2048 / 48000 s.
\<close>

theorem processAudioData_first_fill_stamp:
  "map timestamp (port (fold (process 48000) (replicate 16 [replicate 128 0]) new_processor))
     = [15 * 2048 / 48000] \<and>
   (15 * 2048 / 48000 :: real) \<noteq> 1 * 2048 / 48000"
proof -
  define q where "q = fold (process 48000) (replicate 15 [replicate 128 0]) new_processor"
  have b: "bufferIndex new_processor + 15 * 128 < bufferSize new_processor"
    by (simp add: new_processor_def)
  note q = chunks_below [OF b, of 48000 0, folded q_def]
  have e: "bufferIndex q + length (replicate 128 (0::real)) = bufferSize q"
    using q by (simp add: new_processor_def)
  have n: "replicate 128 (0::real) \<noteq> []" by simp
  have r: "replicate 16 ch = replicate 15 ch @ [ch]" for ch :: "real list list"
  proof -
    have "replicate (Suc 15) ch = replicate 15 ch @ [ch]"
      by (simp only: replicate_Suc replicate_append_same)
    then show ?thesis by simp
  qed
  have "fold (process 48000) (replicate 16 [replicate 128 0]) new_processor
          = process 48000 [replicate 128 0] q"
    unfolding q_def by (simp only: r fold_append fold_simps o_apply)
  then have "fold (process 48000) (replicate 16 [replicate 128 0]) new_processor
          = processAudioData 48000 (replicate 128 0) q"
    by (simp add: process_def)
  with processAudioData_exact [OF e n, of 48000] q show ?thesis
    by (simp add: new_processor_def)
qed

section \<open>The processing queue: single flight, first in first out\<close>










lemma two_calls:
  "run kind [Analyze (1::nat), Analyze 2] =
     \<lparr>processingQueue = [2], isProcessing = True, called = [1, 2], started = [1], running = [1]\<rparr>"
  "run kind [Analyze (1::nat), Analyze 2, Settle 1] =
     \<lparr>processingQueue = [], isProcessing = True, called = [1, 2], started = [1, 2], running = [2]\<rparr>"
  by (simp_all add: run_def analyze_def settle_def processQueue_def new_engine_def)




section \<open>The timbral vector: properties\<close>

lemma computeMFCC_range:
  assumes "\<forall>j. 0 \<le> rnd j \<and> rnd j < 1"
  shows "length (fst (computeMFCC window rnd)) = 13 \<and>
         (\<forall>x \<in> set (fst (computeMFCC window rnd)). - 0.5 \<le> x \<and> x < 0.5) \<and>
         (\<forall>j. 0 \<le> snd (computeMFCC window rnd) j \<and> snd (computeMFCC window rnd) j < 1)"
  using assms by (auto simp: computeMFCC_def)

lemma energy_step_mfcc:
  assumes "\<forall>j. 0 \<le> rnd j \<and> rnd j < 1"
  shows "length (mfcc (seg_features (fst (energy_step cd sr i rnd)))) = 13 \<and>
         (\<forall>x \<in> set (mfcc (seg_features (fst (energy_step cd sr i rnd)))). - 0.5 \<le> x \<and> x < 0.5) \<and>
         (\<forall>j. 0 \<le> snd (energy_step cd sr i rnd) j \<and> snd (energy_step cd sr i rnd) j < 1)"
  using computeMFCC_range [OF assms, of "js_slice cd i (i + sr * 0.1)"]
  by (auto simp: energy_step_def Let_def split: prod.splits)

lemma energy_loop_mfcc:
  "\<forall>j. 0 \<le> rnd j \<and> rnd j < 1 \<Longrightarrow> sg \<in> set (energy_loop cd sr i rnd) \<Longrightarrow>
   length (mfcc (seg_features sg)) = 13 \<and> (\<forall>x \<in> set (mfcc (seg_features sg)). - 0.5 \<le> x \<and> x < 0.5)"
proof (induction cd sr i rnd rule: energy_loop.induct)
  case (1 cd sr i rnd)
  show ?case
  proof (cases "0 < sr \<and> i < real (length cd) - sr * 0.1")
    case False
    with "1.prems"(2) show ?thesis by (simp add: energy_loop.simps [of cd sr i rnd])
  next
    case True
    obtain s rnd' where st: "energy_step cd sr i rnd = (s, rnd')" by (cases "energy_step cd sr i rnd")
    from energy_step_mfcc [OF "1.prems"(1), of cd sr i] st
    have s: "length (mfcc (seg_features s)) = 13 \<and> (\<forall>x \<in> set (mfcc (seg_features s)). - 0.5 \<le> x \<and> x < 0.5)"
      and r: "\<forall>j. 0 \<le> rnd' j \<and> rnd' j < 1" by simp_all
    from "1.prems"(2) True st
    have "sg = s \<or> sg \<in> set (energy_loop cd sr (i + sr * 0.1 / 2) rnd')"
      by (simp add: energy_loop.simps [of cd sr i rnd])
    then show ?thesis
    proof
      assume "sg = s" with s show ?thesis by simp
    next
      assume m: "sg \<in> set (energy_loop cd sr (i + sr * 0.1 / 2) rnd')"
      from "1.IH" [OF True st [symmetric] refl r m] show ?thesis .
    qed
  qed
qed

text \<open>
  C10. Whatever the window, \<open>computeMFCC\<close> returns 13 numbers, each in \<open>[-0.5, 0.5)\<close>,
  that depend on the values of \<open>Math.random()\<close> only and not on the window; and for
  every audio buffer (its sample rate is positive) \<open>analyzeEnergy\<close> returns segments
  whose \<open>mfcc\<close> entry is such a vector.
\<close>

theorem computeMFCC_placeholder:
  "\<forall>j. 0 \<le> rnd j \<and> rnd j < 1 \<Longrightarrow>
   length (fst (computeMFCC window rnd)) = 13 \<and>
   (\<forall>x \<in> set (fst (computeMFCC window rnd)). - 0.5 \<le> x \<and> x < 0.5) \<and>
   computeMFCC window rnd = computeMFCC window' rnd \<and>
   (0 < sampleRate \<longrightarrow>
      (\<exists>energy segments.
         analyzeEnergy channelData sampleRate rnd = Some (energy, segments) \<and>
         (\<forall>sg \<in> set segments.
            length (mfcc (seg_features sg)) = 13 \<and>
            (\<forall>x \<in> set (mfcc (seg_features sg)). - 0.5 \<le> x \<and> x < 0.5))))"
proof -
  assume r: "\<forall>j. 0 \<le> rnd j \<and> rnd j < 1"
  have a: "length (fst (computeMFCC window rnd)) = 13 \<and>
      (\<forall>x \<in> set (fst (computeMFCC window rnd)). - 0.5 \<le> x \<and> x < 0.5)"
    using computeMFCC_range [OF r, of window] by blast
  have b: "computeMFCC window rnd = computeMFCC window' rnd"
    by (simp add: computeMFCC_def)
  have c: "0 < sampleRate \<longrightarrow>
      (\<exists>energy segments.
         analyzeEnergy channelData sampleRate rnd = Some (energy, segments) \<and>
         (\<forall>sg \<in> set segments.
            length (mfcc (seg_features sg)) = 13 \<and>
            (\<forall>x \<in> set (mfcc (seg_features sg)). - 0.5 \<le> x \<and> x < 0.5)))"
    using energy_loop_mfcc [OF r] by (simp add: analyzeEnergy_def Let_def)
  from a b c show ?thesis by blast
qed

lemma two_segments:
  "map (\<lambda>sg. mfcc (seg_features sg)) (energy_loop [1, 1, 1, 1] 20 0 (\<lambda>j. 1 / 4))
     = [map (\<lambda>j. - 1 / 4) [0..<13], map (\<lambda>j. - 1 / 4) [0..<13]]"
proof -
  have "energy_loop [1, 1, 1, 1] 20 2 r = []" for r
    by (subst energy_loop.simps) simp
  then have "energy_loop [1, 1, 1, 1] 20 1 r = [fst (energy_step [1, 1, 1, 1] 20 1 r)]" for r
    by (subst energy_loop.simps) (simp split: prod.splits)
  then have "energy_loop [1, 1, 1, 1] 20 0 r =
      [fst (energy_step [1, 1, 1, 1] 20 0 r),
       fst (energy_step [1, 1, 1, 1] 20 1 (snd (energy_step [1, 1, 1, 1] 20 0 r)))]" for r
    by (subst energy_loop.simps) (simp split: prod.splits)
  then show ?thesis
    by (simp add: energy_step_def computeMFCC_def Let_def del: upt_Suc)
qed

theorem computeMFCC_placeholder_witness:
  "(\<forall>j::nat. (0::real) \<le> 1 / 4 \<and> (1 / 4 :: real) < 1) \<and>
   fst (computeMFCC [1, 2] (\<lambda>j. 1 / 4)) = fst (computeMFCC [] (\<lambda>j. 1 / 4)) \<and>
   (0::real) < 20 \<and>
   (\<exists>energy. analyzeEnergy [1, 1, 1, 1] 20 (\<lambda>j. 1 / 4) =
       Some (energy, energy_loop [1, 1, 1, 1] 20 0 (\<lambda>j. 1 / 4))) \<and>
   map (\<lambda>sg. mfcc (seg_features sg)) (energy_loop [1, 1, 1, 1] 20 0 (\<lambda>j. 1 / 4))
     = [map (\<lambda>j. - 1 / 4) [0..<13], map (\<lambda>j. - 1 / 4) [0..<13]] \<and>
   list_all (\<lambda>sg. length (mfcc (seg_features sg)) = 13 \<and>
                   list_all (\<lambda>x. - 0.5 \<le> x \<and> x < 0.5) (mfcc (seg_features sg)))
     (energy_loop [1, 1, 1, 1] 20 0 (\<lambda>j. 1 / 4))"
proof -
  have r: "\<forall>j::nat. (0::real) \<le> 1 / 4 \<and> (1 / 4 :: real) < 1" by simp
  have p: "(0::real) < 20" by simp
  have e: "analyzeEnergy [1, 1, 1, 1] 20 (\<lambda>j. 1 / 4) =
      Some (map energy (energy_loop [1, 1, 1, 1] 20 0 (\<lambda>j. 1 / 4)),
            energy_loop [1, 1, 1, 1] 20 0 (\<lambda>j. 1 / 4))"
    by (simp add: analyzeEnergy_def Let_def)
  from computeMFCC_placeholder [OF r, of "[1, 2]" "[]" 20 "[1, 1, 1, 1]"] p e two_segments
  show ?thesis by (auto simp: list_all_iff)
qed

section \<open>Scene segmentation: the scenes partition the duration\<close>

lemma chained_append:
  "chained a xs b \<Longrightarrow> chained b ys c \<Longrightarrow> chained a (xs @ ys) c"
  by (induction xs arbitrary: a) auto

lemma scene_step_inv:
  assumes "0 < fi" and "chained 0 (fst st) (snd st)" and "snd st \<le> real m * fi"
  shows "chained 0 (fst (scene_step frames fi (Suc m) st)) (snd (scene_step frames fi (Suc m) st)) \<and>
         snd (scene_step frames fi (Suc m) st) \<le> real (Suc m) * fi"
proof (cases "js_gt (computeFrameDifference (frames ! (Suc m - 1)) (frames ! Suc m)) 0.3")
  case False
  have "real (Suc m) * fi = real m * fi + fi" by (simp add: algebra_simps)
  with assms(1,3) have "snd st \<le> real (Suc m) * fi" by linarith
  with False assms(2) show ?thesis by (simp add: scene_step_def del: of_nat_Suc)
next
  case True
  have "real (Suc m) * fi = real m * fi + fi" by (simp add: algebra_simps)
  with assms(1,3) have lt: "snd st < real (Suc m) * fi" by linarith
  define s where "s = \<lparr>s_start = snd st, s_end = real (Suc m) * fi,
      s_type = fst (classifyScene (frames ! (Suc m - 1))),
      s_confidence = snd (classifyScene (frames ! (Suc m - 1)))\<rparr>"
  have "chained (snd st) [s] (real (Suc m) * fi)" using lt by (simp add: s_def)
  with assms(2) have "chained 0 (fst st @ [s]) (real (Suc m) * fi)" by (rule chained_append)
  moreover have "scene_step frames fi (Suc m) st = (fst st @ [s], real (Suc m) * fi)"
    using True by (simp add: scene_step_def s_def Let_def)
  ultimately show ?thesis by simp
qed

lemma scene_fold_inv:
  assumes "0 < fi"
  shows "chained 0 (fst (fold (scene_step frames fi) [1..<Suc m] ([], 0)))
                   (snd (fold (scene_step frames fi) [1..<Suc m] ([], 0))) \<and>
         snd (fold (scene_step frames fi) [1..<Suc m] ([], 0)) \<le> real m * fi"
proof (induction m)
  case 0
  show ?case by simp
next
  case (Suc m)
  have "[1..<Suc (Suc m)] = [1..<Suc m] @ [Suc m]" by simp
  then have "fold (scene_step frames fi) [1..<Suc (Suc m)] ([], 0) =
      scene_step frames fi (Suc m) (fold (scene_step frames fi) [1..<Suc m] ([], 0))"
    by (simp only: fold_append fold_simps o_apply)
  with scene_step_inv [OF assms, of "fold (scene_step frames fi) [1..<Suc m] ([], 0)" m frames] Suc.IH
  show ?case by simp
qed

lemma chained_nth:
  "chained a ss b \<Longrightarrow> ss \<noteq> [] \<Longrightarrow>
     s_start (hd ss) = a \<and> s_end (last ss) = b \<and>
     (\<forall>i. Suc i < length ss \<longrightarrow> s_end (ss ! i) = s_start (ss ! Suc i)) \<and>
     (\<forall>s \<in> set ss. s_start s < s_end s)"
proof (induction ss arbitrary: a)
  case Nil
  then show ?case by simp
next
  case (Cons s ss)
  show ?case
  proof (cases ss)
    case Nil
    with Cons.prems show ?thesis by simp
  next
    case (Cons t ts)
    from Cons.prems(1) have c: "chained (s_end s) ss b" and s: "s_start s = a" "s_start s < s_end s"
      by simp_all
    from Cons.IH [OF c] Cons
    have ih: "s_start (hd ss) = s_end s" "s_end (last ss) = b"
      "\<forall>i. Suc i < length ss \<longrightarrow> s_end (ss ! i) = s_start (ss ! Suc i)"
      "\<forall>s \<in> set ss. s_start s < s_end s" by simp_all
    have "s_end ((s # ss) ! i) = s_start ((s # ss) ! Suc i)" if "Suc i < length (s # ss)" for i
    proof (cases i)
      case 0
      with ih(1) Cons show ?thesis by simp
    next
      case (Suc j)
      with that ih(3) show ?thesis by simp
    qed
    with s ih Cons show ?thesis by simp
  qed
qed

text \<open>
  C2. For a positive total duration and at least one frame, scene segmentation returns
  a list of scenes that partitions \<open>[0, duration]\<close>: it is not empty, the first scene
  starts at 0, every scene ends after it starts and where the next one starts, and the
  last scene ends at the total duration. From no frame at all nothing is returned: the
  final scene reads the last frame, which is a \<open>TypeError\<close>.
\<close>

theorem analyzeScenes_partition:
  "0 < duration \<Longrightarrow>
   (frames = [] \<longrightarrow> analyzeScenes frames duration = Inl TypeError) \<and>
   (frames \<noteq> [] \<longrightarrow>
      (\<exists>scenes. analyzeScenes frames duration = Inr scenes \<and> scenes \<noteq> [] \<and>
         chained 0 scenes duration \<and>
         s_start (hd scenes) = 0 \<and> s_end (last scenes) = duration \<and>
         (\<forall>i. Suc i < length scenes \<longrightarrow> s_end (scenes ! i) = s_start (scenes ! Suc i)) \<and>
         (\<forall>s \<in> set scenes. s_start s < s_end s)))"
proof -
  assume d: "0 < duration"
  have e: "frames = [] \<longrightarrow> analyzeScenes frames duration = Inl TypeError"
    using d by (simp add: analyzeScenes_def)
  have n: "\<exists>scenes. analyzeScenes frames duration = Inr scenes \<and> scenes \<noteq> [] \<and>
         chained 0 scenes duration \<and>
         s_start (hd scenes) = 0 \<and> s_end (last scenes) = duration \<and>
         (\<forall>i. Suc i < length scenes \<longrightarrow> s_end (scenes ! i) = s_start (scenes ! Suc i)) \<and>
         (\<forall>s \<in> set scenes. s_start s < s_end s)" if ne: "frames \<noteq> []"
  proof -
    define n where "n = length frames - 1"
    have len: "length frames = Suc n" using ne by (simp add: n_def)
    define fi where "fi = duration / real (length frames)"
    have fi: "0 < fi" using d ne by (simp add: fi_def)
    define st where "st = fold (scene_step frames fi) [Suc 0..<length frames] ([], 0)"
    from scene_fold_inv [OF fi, of frames n]
    have c: "chained 0 (fst st) (snd st)" and b: "snd st \<le> real n * fi"
      by (simp_all add: st_def len)
    have "real (Suc n) * fi = real n * fi + fi" by (simp add: algebra_simps)
    with fi have "real n * fi < real (Suc n) * fi" by linarith
    also have "real (Suc n) * fi = duration" using len by (simp add: fi_def)
    finally have lt: "snd st < duration" using b by simp
    define s where "s = \<lparr>s_start = snd st, s_end = duration,
        s_type = fst (classifyScene (frames ! (length frames - 1))),
        s_confidence = snd (classifyScene (frames ! (length frames - 1)))\<rparr>"
    have r: "analyzeScenes frames duration = Inr (fst st @ [s])"
      using lt ne by (simp add: analyzeScenes_def Let_def fi_def [symmetric] st_def [symmetric] s_def)
    have "chained (snd st) [s] duration" using lt by (simp add: s_def)
    with c have ch: "chained 0 (fst st @ [s]) duration" by (rule chained_append)
    from chained_nth [OF ch] r ch show ?thesis by simp
  qed
  from e n show ?thesis by blast
qed

lemma counter_one_pixel: "counter 0 4 (Suc (Suc (Suc (Suc 0)))) = [0]" "counter 0 16 (Suc (Suc (Suc (Suc 0)))) = [0]"
  by (simp_all add: counter.simps)

lemma difference_black_black: "computeFrameDifference black_pixel black_pixel = Some 0"
  by (simp add: computeFrameDifference_def black_pixel_def white_pixel_def solid_frame_def counter_one_pixel pixel_difference_def rd_def
      nan_add_def mean_of_def)

lemma difference_black_white: "computeFrameDifference black_pixel white_pixel = Some 1"
proof -
  have "sqrt 195075 = sqrt 3 * 255"
    by (rule real_sqrt_unique) (simp_all add: power_mult_distrib)
  then show ?thesis
  by (simp add: computeFrameDifference_def black_pixel_def white_pixel_def solid_frame_def counter_one_pixel pixel_difference_def rd_def
      nan_add_def mean_of_def)
qed

lemma classifyScene_black: "classifyScene black_pixel = (Indoor, 0.6)"
  by (simp add: classifyScene_def computeFrameBrightness_def black_pixel_def white_pixel_def solid_frame_def counter_one_pixel rd_def
      nan_add_def mean_of_def js_gt_def js_lt_def)

lemma classifyScene_white: "classifyScene white_pixel = (CloseUp, 0.8)"
  by (simp add: classifyScene_def computeFrameBrightness_def black_pixel_def white_pixel_def solid_frame_def counter_one_pixel rd_def
      nan_add_def mean_of_def js_gt_def js_lt_def extractDominantColors_def quantize_def greenish_def
      computeEdgeCount_def)

lemma scenes_black_black_white: "analyzeScenes [black_pixel, black_pixel, white_pixel] 3 =
   Inr [\<lparr>s_start = 0, s_end = 2, s_type = Indoor, s_confidence = 0.6\<rparr>,
        \<lparr>s_start = 2, s_end = 3, s_type = CloseUp, s_confidence = 0.8\<rparr>]"
  by (simp add: analyzeScenes_def scene_step_def difference_black_black difference_black_white classifyScene_black classifyScene_white js_gt_def upt_conv_Cons)

theorem analyzeScenes_partition_witness:
  "(0::real) < 3 \<and>
   [black_pixel, black_pixel, white_pixel] \<noteq> [] \<and>
   analyzeScenes [black_pixel, black_pixel, white_pixel] 3 =
     Inr [\<lparr>s_start = 0, s_end = 2, s_type = Indoor, s_confidence = 0.6\<rparr>,
          \<lparr>s_start = 2, s_end = 3, s_type = CloseUp, s_confidence = 0.8\<rparr>] \<and>
   chained 0 [\<lparr>s_start = 0, s_end = 2, s_type = Indoor, s_confidence = 0.6\<rparr>,
              \<lparr>s_start = 2, s_end = 3, s_type = CloseUp, s_confidence = 0.8\<rparr>] 3"
proof -
  have d: "(0::real) < 3" by simp
  from analyzeScenes_partition [OF d,
      of "[black_pixel, black_pixel, white_pixel]"]
    scenes_black_black_white
  show ?thesis by simp
qed

section \<open>Colour: sampling, clustering and the palette\<close>

lemma counter_elem:
  "x \<in> set (counter i s b) \<Longrightarrow> d dvd i \<Longrightarrow> d dvd s \<Longrightarrow> x < b \<and> d dvd x"
proof (induction i s b rule: counter.induct)
  case (1 i s b)
  show ?case
  proof (cases "0 < s \<and> i < b")
    case False
    with "1.prems"(1) show ?thesis by (simp add: counter.simps [of i s b])
  next
    case True
    with "1.prems"(1) have "x = i \<or> x \<in> set (counter (i + s) s b)"
      by (simp add: counter.simps [of i s b])
    then show ?thesis
    proof
      assume "x = i" with True "1.prems" show ?thesis by simp
    next
      assume "x \<in> set (counter (i + s) s b)"
      from "1.IH" [OF True this] "1.prems" show ?thesis by simp
    qed
  qed
qed

lemma quantize_byte: "quantized (quantize (Some (unat (w :: 8 word))))"
proof -
  have "unat w < 2 ^ LENGTH(8)" by (rule unsigned_less)
  then have "unat w < 8 * 32" by simp
  then have "unat w div 32 < 8" by (rule less_mult_imp_div_less)
  then have "unat w div 32 * 32 \<le> 224" by simp
  then show ?thesis by (simp add: quantized_def quantize_def)
qed

lemma sample_in_range:
  assumes "4 dvd length d" and "i \<in> set (counter 0 16 (length d))"
  shows "quantized (quantize (rd d i)) \<and> quantized (quantize (rd d (i + 1))) \<and>
         quantized (quantize (rd d (i + 2)))"
proof -
  from counter_elem [OF assms(2), of 4] have "i < length d" "4 dvd i" by simp_all
  with assms(1) have "i + 2 < length d" by presburger
  then show ?thesis by (simp add: rd_def quantize_byte)
qed

lemma colorMap_add_sampled:
  assumes "quantized (fst key)" and "quantized (fst (snd key))" and "quantized (snd (snd key))"
  shows "\<forall>c \<in> set m. sampled c \<Longrightarrow> \<forall>c \<in> set (colorMap_add key m). sampled c"
proof (induction m)
  case Nil
  from assms show ?case by (simp add: sampled_def)
next
  case (Cons c m)
  from Cons.prems have c: "sampled c" and m: "\<forall>c \<in> set m. sampled c" by simp_all
  show ?case
  proof (cases "(c_r c, c_g c, c_b c) = key")
    case True
    from c have "sampled (c\<lparr>c_count := c_count c + 1\<rparr>)" by (simp add: sampled_def)
    with True m show ?thesis by simp
  next
    case False
    with c Cons.IH [OF m] show ?thesis by simp
  qed
qed

lemma colorMap_fold_sampled:
  "\<forall>c \<in> set m. sampled c \<Longrightarrow>
   \<forall>i \<in> set is. quantized (quantize (rd d i)) \<and> quantized (quantize (rd d (i + 1))) \<and>
         quantized (quantize (rd d (i + 2))) \<Longrightarrow>
   \<forall>c \<in> set (fold (\<lambda>i m. colorMap_add (quantize (rd d i), quantize (rd d (i + 1)),
                                                quantize (rd d (i + 2))) m) is m). sampled c"
proof (induction "is" arbitrary: m)
  case Nil
  then show ?case by simp
next
  case (Cons i "is")
  have "\<forall>c \<in> set (colorMap_add (quantize (rd d i), quantize (rd d (i + 1)), quantize (rd d (i + 2))) m). sampled c"
    using Cons.prems by (intro colorMap_add_sampled) simp_all
  from Cons.IH [OF this] Cons.prems(2) show ?case by simp
qed

lemma extractDominantColors_sampled:
  assumes "4 dvd length (data frame)" and "c \<in> set (extractDominantColors frame n)"
  shows "sampled c"
proof -
  define m where "m = fold (\<lambda>i m. colorMap_add (quantize (rd (data frame) i), quantize (rd (data frame) (i + 1)),
                                                quantize (rd (data frame) (i + 2))) m)
                          (counter 0 16 (length (data frame))) []"
  have "\<forall>c \<in> set m. sampled c"
    unfolding m_def using sample_in_range [OF assms(1)] by (intro colorMap_fold_sampled) simp_all
  moreover from assms(2) have "c \<in> set (take n (sort_key (\<lambda>c. - int (c_count c)) m))"
    by (simp add: extractDominantColors_def Let_def m_def)
  then have "c \<in> set m" by (auto dest: in_set_takeD)
  ultimately show ?thesis by blast
qed

lemma sampled_in_palette: "sampled c \<Longrightarrow> in_palette c"
  by (auto simp: sampled_def in_palette_def quantized_def channel_le_def split: option.splits)

lemma weighted_total_bound:
  "\<forall>c \<in> set cl. channel_le 224 (ch c) \<Longrightarrow>
   \<exists>t. fold (\<lambda>c t. case t of None \<Rightarrow> None
                  | Some a \<Rightarrow> (case ch c of None \<Rightarrow> None | Some v \<Rightarrow> Some (a + v * c_count c)))
          cl (Some a) = Some t \<and>
       t + 224 * n \<le> a + 224 * fold (\<lambda>c n. n + c_count c) cl n"
proof (induction cl arbitrary: a n)
  case Nil
  then show ?case by simp
next
  case (Cons c cl)
  from Cons.prems obtain v where v: "ch c = Some v" "v \<le> 224"
    by (cases "ch c") (simp_all add: channel_le_def)
  from Cons.prems have "\<forall>c \<in> set cl. channel_le 224 (ch c)" by simp
  from Cons.IH [OF this, of "a + v * c_count c" "n + c_count c"]
  obtain t where t: "fold (\<lambda>c t. case t of None \<Rightarrow> None
                  | Some a \<Rightarrow> (case ch c of None \<Rightarrow> None | Some v \<Rightarrow> Some (a + v * c_count c)))
          cl (Some (a + v * c_count c)) = Some t"
     "t + 224 * (n + c_count c) \<le> a + v * c_count c + 224 * fold (\<lambda>c n. n + c_count c) cl (n + c_count c)"
    by blast
  define F where "F = fold (\<lambda>c n. n + c_count c) cl (n + c_count c)"
  define p where "p = v * c_count c"
  have "p \<le> 224 * c_count c" unfolding p_def using v(2) by (rule mult_le_mono1)
  moreover have "t + 224 * (n + c_count c) \<le> a + p + 224 * F"
    using t(2) by (simp add: F_def p_def)
  ultimately have "t + 224 * n \<le> a + 224 * F" by (simp add: algebra_simps)
  then have "t + 224 * n \<le> a + 224 * fold (\<lambda>c n. n + c_count c) cl (n + c_count c)"
    by (simp add: F_def)
  with t(1) v(1) show ?case by simp
qed

lemma count_fold_ge: "n \<le> fold (\<lambda>c n. n + c_count c) cl n"
proof (induction cl arbitrary: n)
  case Nil
  show ?case by simp
next
  case (Cons c cl)
  have "n \<le> n + c_count c" by simp
  also have "\<dots> \<le> fold (\<lambda>c n. n + c_count c) cl (n + c_count c)" by (rule Cons.IH)
  finally show ?case by simp
qed

lemma count_fold_pos:
  "cl \<noteq> [] \<Longrightarrow> \<forall>c \<in> set cl. 0 < c_count c \<Longrightarrow> 0 < fold (\<lambda>c n. n + c_count c) cl n"
proof (induction cl arbitrary: n)
  case Nil
  then show ?case by simp
next
  case (Cons c cl)
  have "n + c_count c \<le> fold (\<lambda>c n. n + c_count c) cl (n + c_count c)" by (rule count_fold_ge)
  moreover have "0 < c_count c" using Cons.prems by simp
  ultimately show ?case by simp
qed

lemma mean_channel_le:
  assumes "t \<le> 224 * n" and "0 < n"
  shows "channel_le 224 (mean_channel (Some t) n)"
proof -
  have "real t / real n \<le> 224" using assms by (simp add: field_simps)
  then have "js_round (real t / real n) \<le> 224" unfolding js_round_def by linarith
  then show ?thesis using assms(2) by (simp add: mean_channel_def channel_le_def)
qed

lemma cluster_centroid_in_palette:
  assumes "cl \<noteq> []" and "\<forall>c \<in> set cl. in_palette c"
  shows "in_palette (cluster_centroid cl)"
proof -
  define n where "n = fold (\<lambda>c n. n + c_count c) cl 0"
  have n: "0 < n" unfolding n_def using assms by (intro count_fold_pos) (auto simp: in_palette_def)
  have ch: "channel_le 224 (mean_channel (weighted_total ch cl) n)"
    if "\<forall>c \<in> set cl. channel_le 224 (ch c)" for ch
  proof -
    from weighted_total_bound [OF that, of 0 0]
    obtain t where "weighted_total ch cl = Some t" "t \<le> 224 * n"
      by (auto simp: weighted_total_def n_def)
    with mean_channel_le [OF _ n] show ?thesis by simp
  qed
  from assms(2) ch [of c_r] ch [of c_g] ch [of c_b] n show ?thesis
    by (simp add: cluster_centroid_def Let_def n_def [symmetric] in_palette_def)
qed

lemma kmeans_iteration_in_palette:
  assumes "\<forall>c \<in> set colors. in_palette c" and "\<forall>c \<in> set centroids. in_palette c"
  shows "\<forall>c \<in> set (kmeans_iteration colors centroids). in_palette c"
proof
  fix c assume "c \<in> set (kmeans_iteration colors centroids)"
  then obtain index where i: "index < length centroids"
    and c: "c = (let cluster = filter (\<lambda>c. nearest centroids c = index) colors
             in if length cluster > 0 then cluster_centroid cluster else centroids ! index)"
    by (auto simp: kmeans_iteration_def)
  show "in_palette c"
  proof (cases "filter (\<lambda>c. nearest centroids c = index) colors = []")
    case True
    with c i assms(2) show ?thesis by simp
  next
    case False
    have "in_palette (cluster_centroid (filter (\<lambda>c. nearest centroids c = index) colors))"
      using False assms(1) by (intro cluster_centroid_in_palette) auto
    with c False show ?thesis by simp
  qed
qed

lemma kmeans_funpow_in_palette:
  assumes "\<forall>c \<in> set colors. in_palette c" and "\<forall>c \<in> set centroids. in_palette c"
  shows "\<forall>c \<in> set ((kmeans_iteration colors ^^ n) centroids). in_palette c"
proof (induction n)
  case 0
  from assms(2) show ?case by simp
next
  case (Suc n)
  from kmeans_iteration_in_palette [OF assms(1) Suc.IH] show ?case by simp
qed

lemma clusterColors_in_palette:
  assumes "\<forall>c \<in> set colors. in_palette c"
  shows "\<forall>c \<in> set (clusterColors colors k). in_palette c"
proof (cases "length colors \<le> k")
  case True
  with assms show ?thesis by (simp add: clusterColors_def)
next
  case False
  have "\<forall>c \<in> set (take k colors). in_palette c" using assms by (auto dest: in_set_takeD)
  from kmeans_funpow_in_palette [OF assms this, of 10] False show ?thesis
    by (simp add: clusterColors_def)
qed

lemma rgb_string_in_palette:
  assumes "in_palette c"
  shows "\<exists>r g b. r \<le> 224 \<and> g \<le> 224 \<and> b \<le> 224 \<and>
          rgb_string c = ''rgb('' @ show_nat r @ '','' @ show_nat g @ '','' @ show_nat b @ '')''"
proof -
  from assms obtain r where r: "c_r c = Some r" "r \<le> 224"
    by (cases "c_r c") (simp_all add: in_palette_def channel_le_def)
  from assms obtain g where g: "c_g c = Some g" "g \<le> 224"
    by (cases "c_g c") (simp_all add: in_palette_def channel_le_def)
  from assms obtain b where b: "c_b c = Some b" "b \<le> 224"
    by (cases "c_b c") (simp_all add: in_palette_def channel_le_def)
  from r g b have "r \<le> 224 \<and> g \<le> 224 \<and> b \<le> 224 \<and>
          rgb_string c = ''rgb('' @ show_nat r @ '','' @ show_nat g @ '','' @ show_nat b @ '')''"
    by (simp add: rgb_string_def show_channel_def)
  then show ?thesis by blast
qed

lemma length_concat_replicate4: "length (concat (replicate n [a, b, c, d])) = 4 * n"
  by (induction n) simp_all

lemma nth_concat_replicate4:
  "i < 4 * n \<Longrightarrow> concat (replicate n [a, b, c, d]) ! i = [a, b, c, d] ! (i mod 4)"
proof (induction n arbitrary: i)
  case 0
  then show ?case by simp
next
  case (Suc n)
  show ?case
  proof (cases "i < 4")
    case True
    then have "i = 0 \<or> i = 1 \<or> i = 2 \<or> i = 3" by arith
    then show ?thesis by (elim disjE) simp_all
  next
    case False
    then have "i - 4 < 4 * n" using Suc.prems by simp
    moreover have "(i - 4) mod 4 = i mod 4" using False by presburger
    ultimately have "concat (replicate n [a, b, c, d]) ! (i - 4) = [a, b, c, d] ! (i mod 4)"
      using Suc.IH [of "i - 4"] by simp
    moreover have "(a # b # c # d # ys) ! i = ys ! (i - 4)" for ys :: "'a list"
    proof -
      from False have "4 \<le> i" by simp
      then obtain j where "i = 4 + j" using le_Suc_ex [of 4 i] by blast
      then have "i = Suc (Suc (Suc (Suc j)))" by simp
      then show ?thesis by simp
    qed
    ultimately show ?thesis by simp
  qed
qed

lemma rd_solid:
  assumes "i < 4 * (w * h)" and "4 dvd i"
  shows "rd (data (solid_frame w h r g b)) i = Some (unat r)"
    and "rd (data (solid_frame w h r g b)) (i + 1) = Some (unat g)"
    and "rd (data (solid_frame w h r g b)) (i + 2) = Some (unat b)"
proof -
  from assms have b: "i + 1 < 4 * (w * h)" "i + 2 < 4 * (w * h)" by presburger+
  from assms(2) have m: "i mod 4 = 0" "(i + 1) mod 4 = 1" "(i + 2) mod 4 = 2" by presburger+
  show "rd (data (solid_frame w h r g b)) i = Some (unat r)"
    using assms(1) m(1) by (simp add: rd_def solid_frame_def length_concat_replicate4 nth_concat_replicate4)
  show "rd (data (solid_frame w h r g b)) (i + 1) = Some (unat g)"
    using b(1) m(2) by (simp add: rd_def solid_frame_def length_concat_replicate4 nth_concat_replicate4)
  show "rd (data (solid_frame w h r g b)) (i + 2) = Some (unat b)"
    using b(2) m(3) by (simp add: rd_def solid_frame_def length_concat_replicate4 nth_concat_replicate4)
qed

lemma length_data_solid: "length (data (solid_frame w h r g b)) = 4 * (w * h)"
  by (simp add: solid_frame_def length_concat_replicate4)

lemma counter_nonempty: "0 < s \<Longrightarrow> 0 < b \<Longrightarrow> counter 0 s b \<noteq> []"
  by (simp add: counter.simps [of 0 s b])

lemma colorMap_fold_const_aux:
  assumes "\<forall>i \<in> set is. key i = (c_r c, c_g c, c_b c)"
  shows "fold (\<lambda>i m. colorMap_add (key i) m) is [c] = [c\<lparr>c_count := c_count c + length is\<rparr>]"
  using assms
proof (induction "is" arbitrary: c)
  case Nil
  show ?case by simp
next
  case (Cons i "is")
  from Cons.prems have k: "key i = (c_r c, c_g c, c_b c)" by simp
  from Cons.prems have "\<forall>i \<in> set is. key i = (c_r (c\<lparr>c_count := c_count c + 1\<rparr>),
      c_g (c\<lparr>c_count := c_count c + 1\<rparr>), c_b (c\<lparr>c_count := c_count c + 1\<rparr>))" by simp
  from Cons.IH [OF this] k show ?case by simp
qed

lemma colorMap_fold_const:
  assumes "\<forall>i \<in> set is. key i = (kr, kg, kb)" and "is \<noteq> []"
  shows "fold (\<lambda>i m. colorMap_add (key i) m) is [] =
           [\<lparr>c_r = kr, c_g = kg, c_b = kb, c_count = length is\<rparr>]"
proof -
  from assms(2) obtain i js where ij: "is = i # js" by (cases "is") auto
  with assms(1) have k: "key i = (kr, kg, kb)" and
    r: "\<forall>i \<in> set js. key i = (c_r \<lparr>c_r = kr, c_g = kg, c_b = kb, c_count = 1\<rparr>,
        c_g \<lparr>c_r = kr, c_g = kg, c_b = kb, c_count = 1\<rparr>, c_b \<lparr>c_r = kr, c_g = kg, c_b = kb, c_count = 1\<rparr>)"
    by simp_all
  from colorMap_fold_const_aux [OF r] k ij show ?thesis by simp
qed

lemma extractDominantColors_solid:
  assumes "0 < w" and "0 < h" and "0 < n"
  shows "extractDominantColors (solid_frame w h r g b) n =
    [\<lparr>c_r = Some (unat r div 32 * 32), c_g = Some (unat g div 32 * 32), c_b = Some (unat b div 32 * 32),
      c_count = length (counter 0 16 (4 * (w * h)))\<rparr>]"
proof -
  define d where "d = data (solid_frame w h r g b)"
  have key: "\<forall>i \<in> set (counter 0 16 (4 * (w * h))).
      (quantize (rd d i), quantize (rd d (i + 1)), quantize (rd d (i + 2))) =
      (Some (unat r div 32 * 32), Some (unat g div 32 * 32), Some (unat b div 32 * 32))"
  proof
    fix i assume "i \<in> set (counter 0 16 (4 * (w * h)))"
    from counter_elem [OF this, of 4] have "i < 4 * (w * h)" "4 dvd i" by simp_all
    from rd_solid [OF this] show "(quantize (rd d i), quantize (rd d (i + 1)), quantize (rd d (i + 2))) =
      (Some (unat r div 32 * 32), Some (unat g div 32 * 32), Some (unat b div 32 * 32))"
      by (simp add: d_def quantize_def)
  qed
  have ne: "counter 0 16 (4 * (w * h)) \<noteq> []" using assms by (intro counter_nonempty) simp_all
  from colorMap_fold_const [OF key ne] assms(3) show ?thesis
    by (simp add: extractDominantColors_def Let_def d_def [symmetric])
       (simp add: d_def length_data_solid)
qed

lemma fold_nan_add_const:
  "\<forall>i \<in> set is. g i = Some v \<Longrightarrow>
   fold (\<lambda>i t. nan_add t (g i)) is (Some a) = Some (a + real (length is) * v)"
  by (induction "is" arbitrary: a) (simp_all add: nan_add_def algebra_simps)

lemma pixel_difference_self:
  "i + 2 < length d \<Longrightarrow> pixel_difference d d i = Some 0"
  by (simp add: pixel_difference_def rd_def)

lemma computeFrameDifference_self:
  assumes "4 dvd length (data f)" and "data f \<noteq> []"
  shows "computeFrameDifference f f = Some 0"
proof -
  have "\<forall>i \<in> set (counter 0 4 (length (data f))). pixel_difference (data f) (data f) i = Some 0"
  proof
    fix i assume "i \<in> set (counter 0 4 (length (data f)))"
    from counter_elem [OF this, of 4] have "i < length (data f)" "4 dvd i" by simp_all
    with assms(1) have "i + 2 < length (data f)" by presburger
    then show "pixel_difference (data f) (data f) i = Some 0" by (rule pixel_difference_self)
  qed
  from fold_nan_add_const [OF this, of 0]
  have "fold (\<lambda>i t. nan_add t (pixel_difference (data f) (data f) i)) (counter 0 4 (length (data f))) (Some 0)
      = Some 0" by simp
  moreover have "counter 0 4 (length (data f)) \<noteq> []" using assms(2) by (intro counter_nonempty) simp_all
  ultimately show ?thesis by (simp add: computeFrameDifference_def Let_def mean_of_def)
qed

lemma fst_fold_motion_step:
  "fst (fold (motion_step frames) is acc) =
     fold (\<lambda>i t. nan_add t (computeFrameDifference (frames ! (i - 1)) (frames ! i))) is (fst acc)"
  by (induction "is" arbitrary: acc) (simp_all add: motion_step_def Let_def split: prod.splits)

lemma intensity_analyzeMotion:
  "2 \<le> length frames \<Longrightarrow>
   intensity (analyzeMotion frames) =
     map_option (\<lambda>t. t / real (length frames - 1))
       (fold (\<lambda>i t. nan_add t (computeFrameDifference (frames ! (i - 1)) (frames ! i)))
             [1..<length frames] (Some 0))"
proof -
  assume l: "2 \<le> length frames"
  obtain a b c d where x: "fold (motion_step frames) [1..<length frames] (Some 0, 0, 0, []) = (a, b, c, d)"
    by (cases "fold (motion_step frames) [1..<length frames] (Some 0, 0, 0, [])") auto
  from fst_fold_motion_step [of frames "[1..<length frames]" "(Some 0, 0, 0, [])"] x
  have "a = fold (\<lambda>i t. nan_add t (computeFrameDifference (frames ! (i - 1)) (frames ! i)))
             [1..<length frames] (Some 0)" by simp
  with l x show ?thesis by (simp add: analyzeMotion_def Let_def)
qed

lemma intensity_identical:
  assumes "4 dvd length (data f)" and "data f \<noteq> []" and "2 \<le> n"
  shows "intensity (analyzeMotion (replicate n f)) = Some 0"
proof -
  have "\<forall>i \<in> set [1..<n]. computeFrameDifference (replicate n f ! (i - 1)) (replicate n f ! i) = Some 0"
    using computeFrameDifference_self [OF assms(1,2)] by auto
  from fold_nan_add_const [OF this, of 0] assms(3) show ?thesis
    by (simp add: intensity_analyzeMotion)
qed

lemma funpow_fixed: "f x = y \<Longrightarrow> f y = y \<Longrightarrow> (f ^^ Suc n) x = y"
  by (induction n) simp_all

lemma replicate_5: "replicate 5 x = [x, x, x, x, x]"
  by (simp add: numeral_eq_Suc)

lemma colorDistance_nonneg: "\<not> less_best (colorDistance c1 c2) (Best 0)"
  by (simp add: less_best_def colorDistance_def not_less split: option.splits)

lemma nearest_fold_keep:
  "fold (\<lambda>index acc.
                  if less_best (colorDistance c (centroids ! index)) (snd acc)
                  then (case colorDistance c (centroids ! index) of
                          None \<Rightarrow> acc | Some distance \<Rightarrow> (index, Best distance))
                  else acc) is (0, Best 0) = (0, Best 0)"
  by (induction "is") (simp_all add: colorDistance_nonneg)

lemma nearest_first:
  assumes "centroids \<noteq> []" and "colorDistance c (centroids ! 0) = Some 0"
  shows "nearest centroids c = 0"
proof -
  define f where "f = (\<lambda>index acc.
                  if less_best (colorDistance c (centroids ! index)) (snd acc)
                  then (case colorDistance c (centroids ! index) of
                          None \<Rightarrow> acc | Some distance \<Rightarrow> (index, Best distance))
                  else acc)"
  from assms(1) have u: "[0..<length centroids] = 0 # [1..<length centroids]"
    by (simp add: upt_conv_Cons)
  have "f 0 (0, Infinity) = (0, Best 0)"
    using assms(2) by (simp add: f_def less_best_def)
  moreover have "fold f [1..<length centroids] (0, Best 0) = (0, Best 0)"
    unfolding f_def by (rule nearest_fold_keep)
  ultimately have "fold f [0..<length centroids] (0, Infinity) = (0, Best 0)"
    by (simp only: u fold_simps)
  then show ?thesis by (simp add: nearest_def f_def)
qed

lemma colorDistance_same:
  assumes "c_r x = Some r" "c_g x = Some g" "c_b x = Some b"
    and "c_r c = Some r" "c_g c = Some g" "c_b c = Some b"
  shows "colorDistance c x = Some 0"
  using assms by (simp add: colorDistance_def)

lemma mean_channel_five: "0 < n \<Longrightarrow> mean_channel (Some (5 * (v * n))) (5 * n) = Some v"
proof -
  assume n: "0 < n"
  then have "real (5 * (v * n)) / real (5 * n) = real v" by simp
  then have "js_round (real (5 * (v * n)) / real (5 * n)) = int v"
    by (simp only: js_round_def) linarith
  with n show ?thesis by (simp add: mean_channel_def)
qed

lemma cluster_centroid_five:
  assumes "c_r c = Some r" "c_g c = Some g" "c_b c = Some b" and "0 < c_count c"
  shows "cluster_centroid [c, c, c, c, c] = \<lparr>c_r = Some r, c_g = Some g, c_b = Some b, c_count = 5 * c_count c\<rparr>"
proof -
  have t: "fold (\<lambda>c n. n + c_count c) [c, c, c, c, c] 0 = 5 * c_count c" by simp
  have w: "weighted_total ch [c, c, c, c, c] = Some (5 * (v * c_count c))" if "ch c = Some v" for ch v
    using that by (simp add: weighted_total_def)
  show ?thesis
    unfolding cluster_centroid_def Let_def t w [of c_r r, OF assms(1)] w [of c_g g, OF assms(2)]
      w [of c_b b, OF assms(3)]
    by (simp add: mean_channel_five [OF assms(4)])
qed

lemma kmeans_iteration_five:
  assumes "c_r c = Some r" "c_g c = Some g" "c_b c = Some b" and "0 < c_count c"
    and "c_r x = Some r" "c_g x = Some g" "c_b x = Some b"
  shows "kmeans_iteration [c, c, c, c, c] [x, c, c] =
     [\<lparr>c_r = Some r, c_g = Some g, c_b = Some b, c_count = 5 * c_count c\<rparr>, c, c]"
proof -
  have "colorDistance c ([x, c, c] ! 0) = Some 0"
    using assms by (simp add: colorDistance_same)
  then have n: "nearest [x, c, c] c = 0" by (intro nearest_first) simp_all
  have u: "[0..<length [x, c, c]] = [0, 1, 2]" by (simp add: upt_conv_Cons)
  show ?thesis
    unfolding kmeans_iteration_def u
    by (simp add: n Let_def cluster_centroid_five [OF assms(1-4)])
qed

lemma clusterColors_five:
  assumes "c_r c = Some r" "c_g c = Some g" "c_b c = Some b" and "0 < c_count c"
  shows "clusterColors [c, c, c, c, c] 3 =
     [\<lparr>c_r = Some r, c_g = Some g, c_b = Some b, c_count = 5 * c_count c\<rparr>, c, c]"
proof -
  define c5 where "c5 = \<lparr>c_r = Some r, c_g = Some g, c_b = Some b, c_count = 5 * c_count c\<rparr>"
  have a: "kmeans_iteration [c, c, c, c, c] [c, c, c] = [c5, c, c]"
    unfolding c5_def using assms by (intro kmeans_iteration_five) simp_all
  have b: "kmeans_iteration [c, c, c, c, c] [c5, c, c] = [c5, c, c]"
    unfolding c5_def using assms by (intro kmeans_iteration_five) simp_all
  have "(kmeans_iteration [c, c, c, c, c] ^^ Suc 9) [c, c, c] = [c5, c, c]"
    using a b by (rule funpow_fixed)
  then show ?thesis by (simp add: clusterColors_def c5_def)
qed

lemma show_nat_224: "show_nat 224 = ''224''" "show_nat 0 = ''0''" "show_nat 112 = ''112''"
  by (simp_all add: show_nat.simps digit_char_def)

lemma dominantColors_red:
  assumes "0 < w" and "0 < h"
  shows "dominantColors (analyzeColor (replicate 5 (solid_frame w h 255 0 0))) =
     [''rgb(224,0,0)'', ''rgb(224,0,0)'', ''rgb(224,0,0)'']"
proof -
  define c where "c = \<lparr>c_r = Some 224, c_g = Some 0, c_b = Some 0,
      c_count = length (counter 0 16 (4 * (w * h)))\<rparr>"
  have e: "extractDominantColors (solid_frame w h 255 0 0) 5 = [c]"
    using extractDominantColors_solid [OF assms, of 5 255 0 0] by (simp add: c_def)
  have "counter 0 16 (4 * (w * h)) \<noteq> []" using assms by (intro counter_nonempty) simp_all
  then have n: "0 < c_count c" by (simp add: c_def)
  have ch: "c_r c = Some 224" "c_g c = Some 0" "c_b c = Some 0" by (simp_all add: c_def)
  have "dominantColors (analyzeColor (replicate 5 (solid_frame w h 255 0 0))) =
      map rgb_string (clusterColors [c, c, c, c, c] 3)"
    by (simp add: analyzeColor_def Let_def replicate_5 e)
  also have "\<dots> = [''rgb(224,0,0)'', ''rgb(224,0,0)'', ''rgb(224,0,0)'']"
    unfolding clusterColors_five [OF ch n]
    by (simp add: rgb_string_def show_channel_def show_nat_224 ch)
  finally show ?thesis .
qed

lemma brightness_red:
  assumes "0 < w" and "0 < h"
  shows "computeFrameBrightness (solid_frame w h 255 0 0) = Some 0.299"
proof -
  have l: "length (data (solid_frame w h 255 0 0)) = 4 * (w * h)" by (rule length_data_solid)
  have "\<forall>i \<in> set (counter 0 4 (length (data (solid_frame w h 255 0 0)))).
      (case rd (data (solid_frame w h 255 0 0)) i of None \<Rightarrow> None | Some r \<Rightarrow>
                     case rd (data (solid_frame w h 255 0 0)) (i + 1) of None \<Rightarrow> None | Some g \<Rightarrow>
                     case rd (data (solid_frame w h 255 0 0)) (i + 2) of None \<Rightarrow> None | Some b \<Rightarrow>
                       Some ((0.299 * real r + 0.587 * real g + 0.114 * real b) / 255)) = Some 0.299"
  proof
    fix i assume "i \<in> set (counter 0 4 (length (data (solid_frame w h 255 0 0))))"
    from counter_elem [OF this, of 4] l have "i < 4 * (w * h)" "4 dvd i" by simp_all
    from rd_solid [OF this, of 255 0 0]
    show "(case rd (data (solid_frame w h 255 0 0)) i of None \<Rightarrow> None | Some r \<Rightarrow>
                     case rd (data (solid_frame w h 255 0 0)) (i + 1) of None \<Rightarrow> None | Some g \<Rightarrow>
                     case rd (data (solid_frame w h 255 0 0)) (i + 2) of None \<Rightarrow> None | Some b \<Rightarrow>
                       Some ((0.299 * real r + 0.587 * real g + 0.114 * real b) / 255)) = Some 0.299"
      by simp
  qed
  note f = fold_nan_add_const [OF this, of 0]
  have ne: "counter 0 4 (length (data (solid_frame w h 255 0 0))) \<noteq> []"
    using assms l by (intro counter_nonempty) simp_all
  show ?thesis
    unfolding computeFrameBrightness_def Let_def f
    using ne by (simp add: mean_of_def)
qed

lemma classifyScene_red:
  assumes "0 < w" and "0 < h"
  shows "classifyScene (solid_frame w h 255 0 0) = (Indoor, 0.6)"
  by (simp add: classifyScene_def Let_def brightness_red [OF assms] js_gt_def js_lt_def)

lemma scenes_identical:
  assumes "4 dvd length (data f)" and "data f \<noteq> []" and "0 < duration"
  shows "analyzeScenes (replicate 5 f) duration =
     Inr [\<lparr>s_start = 0, s_end = duration, s_type = fst (classifyScene f),
           s_confidence = snd (classifyScene f)\<rparr>]"
proof -
  have s: "scene_step [f, f, f, f, f] fi i st = st" if "i \<in> {1, 2, 3, 4}" for fi i st
    using that computeFrameDifference_self [OF assms(1,2)]
    by (auto simp: scene_step_def js_gt_def)
  have u: "[1..<length [f, f, f, f, f]] = [1, 2, 3, 4]" by (simp add: upt_conv_Cons)
  show ?thesis
    unfolding replicate_5 analyzeScenes_def Let_def u
    using assms(3) by (simp add: s)
qed

lemma extract_white: "extractDominantColors white_pixel 5 =
    [\<lparr>c_r = Some 224, c_g = Some 224, c_b = Some 224, c_count = 1\<rparr>]"
  using extractDominantColors_solid [of 1 1 5 255 255 255]
  by (simp add: white_pixel_def counter.simps)

lemma extract_black: "extractDominantColors black_pixel 5 =
    [\<lparr>c_r = Some 0, c_g = Some 0, c_b = Some 0, c_count = 1\<rparr>]"
  using extractDominantColors_solid [of 1 1 5 0 0 0]
  by (simp add: black_pixel_def counter.simps)

lemma dist_eval:
  "colorDistance \<lparr>c_r = Some 224, c_g = Some 224, c_b = Some 224, c_count = m\<rparr>
                 \<lparr>c_r = Some 224, c_g = Some 224, c_b = Some 224, c_count = n\<rparr> = Some 0"
  "colorDistance \<lparr>c_r = Some 0, c_g = Some 0, c_b = Some 0, c_count = m\<rparr>
                 \<lparr>c_r = Some 0, c_g = Some 0, c_b = Some 0, c_count = n\<rparr> = Some 0"
  "colorDistance \<lparr>c_r = Some 224, c_g = Some 224, c_b = Some 224, c_count = m\<rparr>
                 \<lparr>c_r = Some 0, c_g = Some 0, c_b = Some 0, c_count = n\<rparr> = Some (sqrt 150528)"
  "colorDistance \<lparr>c_r = Some 0, c_g = Some 0, c_b = Some 0, c_count = m\<rparr>
                 \<lparr>c_r = Some 224, c_g = Some 224, c_b = Some 224, c_count = n\<rparr> = Some (sqrt 150528)"
  by (simp_all add: colorDistance_def)

lemma nearest_white_black:
  "nearest [\<lparr>c_r = Some 224, c_g = Some 224, c_b = Some 224, c_count = m\<rparr>,
            \<lparr>c_r = Some 0, c_g = Some 0, c_b = Some 0, c_count = n\<rparr>,
            \<lparr>c_r = Some 224, c_g = Some 224, c_b = Some 224, c_count = k\<rparr>]
           \<lparr>c_r = Some 224, c_g = Some 224, c_b = Some 224, c_count = j\<rparr> = 0"
  "nearest [\<lparr>c_r = Some 224, c_g = Some 224, c_b = Some 224, c_count = m\<rparr>,
            \<lparr>c_r = Some 0, c_g = Some 0, c_b = Some 0, c_count = n\<rparr>,
            \<lparr>c_r = Some 224, c_g = Some 224, c_b = Some 224, c_count = k\<rparr>]
           \<lparr>c_r = Some 0, c_g = Some 0, c_b = Some 0, c_count = j\<rparr> = 1"
  by (simp_all add: nearest_def upt_conv_Cons dist_eval less_best_def)

lemma kmeans_white_black:
  "kmeans_iteration
      [\<lparr>c_r = Some 224, c_g = Some 224, c_b = Some 224, c_count = 1\<rparr>,
       \<lparr>c_r = Some 0, c_g = Some 0, c_b = Some 0, c_count = 1\<rparr>,
       \<lparr>c_r = Some 224, c_g = Some 224, c_b = Some 224, c_count = 1\<rparr>,
       \<lparr>c_r = Some 0, c_g = Some 0, c_b = Some 0, c_count = 1\<rparr>]
      [\<lparr>c_r = Some 224, c_g = Some 224, c_b = Some 224, c_count = m\<rparr>,
       \<lparr>c_r = Some 0, c_g = Some 0, c_b = Some 0, c_count = n\<rparr>,
       \<lparr>c_r = Some 224, c_g = Some 224, c_b = Some 224, c_count = 1\<rparr>] =
      [\<lparr>c_r = Some 224, c_g = Some 224, c_b = Some 224, c_count = 2\<rparr>,
       \<lparr>c_r = Some 0, c_g = Some 0, c_b = Some 0, c_count = 2\<rparr>,
       \<lparr>c_r = Some 224, c_g = Some 224, c_b = Some 224, c_count = 1\<rparr>]"
  by (simp add: kmeans_iteration_def nearest_white_black Let_def upt_conv_Cons
      cluster_centroid_def weighted_total_def mean_channel_def js_round_def)

lemma dominantColors_white_black:
  "dominantColors (analyzeColor [white_pixel, black_pixel, white_pixel, black_pixel]) =
     [''rgb(224,224,224)'', ''rgb(0,0,0)'', ''rgb(224,224,224)'']"
proof -
  let ?W = "\<lparr>c_r = Some 224, c_g = Some 224, c_b = Some 224, c_count = 1\<rparr>"
  let ?K = "\<lparr>c_r = Some 0, c_g = Some 0, c_b = Some 0, c_count = 1\<rparr>"
  let ?W2 = "\<lparr>c_r = Some 224, c_g = Some 224, c_b = Some 224, c_count = 2\<rparr>"
  let ?K2 = "\<lparr>c_r = Some 0, c_g = Some 0, c_b = Some 0, c_count = 2\<rparr>"
  have "(kmeans_iteration [?W, ?K, ?W, ?K] ^^ Suc 9) [?W, ?K, ?W] = [?W2, ?K2, ?W]"
    by (rule funpow_fixed) (rule kmeans_white_black)+
  then have "clusterColors [?W, ?K, ?W, ?K] 3 = [?W2, ?K2, ?W]"
    by (simp add: clusterColors_def)
  then show ?thesis
    by (simp add: analyzeColor_def Let_def extract_white extract_black rgb_string_def show_channel_def
        show_nat_224)
qed

text \<open>
  C9. For frames whose data holds whole pixels (its length is a multiple of 4, as in
  every \<open>ImageData\<close>), every colour sampled from a frame has its three channels
  multiples of 32 that are at most 224, and every entry of \<open>dominantColors\<close> is
  \<open>rgb(r,g,b)\<close> with r, g and b at most 224: a channel value of 255 never appears.
\<close>

theorem dominantColors_at_most_224:
  "\<forall>frame \<in> set frames. 4 dvd length (data frame) \<Longrightarrow>
   (\<forall>frame \<in> set frames. \<forall>c \<in> set (extractDominantColors frame 5).
      quantized (c_r c) \<and> quantized (c_g c) \<and> quantized (c_b c)) \<and>
   (\<forall>s \<in> set (dominantColors (analyzeColor frames)).
      \<exists>r g b. r \<le> 224 \<and> g \<le> 224 \<and> b \<le> 224 \<and>
        s = ''rgb('' @ show_nat r @ '','' @ show_nat g @ '','' @ show_nat b @ '')'')"
proof -
  assume wf: "\<forall>frame \<in> set frames. 4 dvd length (data frame)"
  have s: "\<forall>frame \<in> set frames. \<forall>c \<in> set (extractDominantColors frame 5). sampled c"
    using wf extractDominantColors_sampled by blast
  then have "\<forall>c \<in> set (concat (map (\<lambda>frame. extractDominantColors frame 5) frames)). in_palette c"
    by (auto intro: sampled_in_palette)
  from clusterColors_in_palette [OF this, of 3]
  have p: "\<forall>c \<in> set (clusterColors (concat (map (\<lambda>frame. extractDominantColors frame 5) frames)) 3).
      in_palette c" .
  have d: "dominantColors (analyzeColor frames) =
      map rgb_string (clusterColors (concat (map (\<lambda>frame. extractDominantColors frame 5) frames)) 3)"
    by (simp add: analyzeColor_def Let_def)
  have "\<exists>r g b. r \<le> 224 \<and> g \<le> 224 \<and> b \<le> 224 \<and>
        s = ''rgb('' @ show_nat r @ '','' @ show_nat g @ '','' @ show_nat b @ '')''"
    if "s \<in> set (dominantColors (analyzeColor frames))" for s
  proof -
    from that d obtain c where "c \<in> set (clusterColors (concat (map (\<lambda>frame. extractDominantColors frame 5) frames)) 3)"
      "s = rgb_string c" by auto
    with p rgb_string_in_palette [of c] show ?thesis by blast
  qed
  moreover from s have "\<forall>frame \<in> set frames. \<forall>c \<in> set (extractDominantColors frame 5).
      quantized (c_r c) \<and> quantized (c_g c) \<and> quantized (c_b c)"
    by (simp add: sampled_def)
  ultimately show ?thesis by blast
qed

theorem dominantColors_at_most_224_witness:
  "list_all (\<lambda>frame. 4 dvd length (data frame)) [white_pixel, black_pixel, white_pixel, black_pixel] \<and>
   extractDominantColors white_pixel 5 = [\<lparr>c_r = Some 224, c_g = Some 224, c_b = Some 224, c_count = 1\<rparr>] \<and>
   dominantColors (analyzeColor [white_pixel, black_pixel, white_pixel, black_pixel]) =
     [''rgb(224,224,224)'', ''rgb(0,0,0)'', ''rgb(224,224,224)'']"
proof -
  have h: "\<forall>frame \<in> set [white_pixel, black_pixel, white_pixel, black_pixel]. 4 dvd length (data frame)"
    by (simp add: white_pixel_def black_pixel_def length_data_solid)
  from dominantColors_at_most_224 [OF h] h extract_white dominantColors_white_black
  show ?thesis by (simp add: list_all_iff)
qed

section \<open>Five identical solid-red frames\<close>

text \<open>
  C8, as stated, fails on the palette: sampling quantizes 255 down to 224, so for five
  identical solid-red frames every dominant colour is \<open>rgb(224,0,0)\<close>, and none is
  \<open>rgb(255,0,0)\<close>.
\<close>

theorem red_frames_counterexample:
  "dominantColors (analyzeColor (replicate 5 (solid_frame 2 2 255 0 0))) =
     [''rgb(224,0,0)'', ''rgb(224,0,0)'', ''rgb(224,0,0)''] \<and>
   \<not> list_all (\<lambda>s. s = ''rgb(255,0,0)'')
        (dominantColors (analyzeColor (replicate 5 (solid_frame 2 2 255 0 0))))"
proof -
  have "dominantColors (analyzeColor (replicate 5 (solid_frame 2 2 255 0 0))) =
     [''rgb(224,0,0)'', ''rgb(224,0,0)'', ''rgb(224,0,0)'']"
    by (rule dominantColors_red) simp_all
  then show ?thesis by simp
qed

text \<open>
  C8, amended. For five identical solid-red frames of any size (at least one pixel) and
  a positive total duration, the motion intensity is 0, every entry of
  \<open>dominantColors\<close> is \<open>rgb(224,0,0)\<close>, and the scene list is the one scene from 0 to
  the total duration (classified indoor, confidence 0.6, as its brightness 0.299 is
  below 0.4).
\<close>

theorem red_frames_amended:
  "0 < w \<Longrightarrow> 0 < h \<Longrightarrow> 0 < duration \<Longrightarrow>
   intensity (analyzeMotion (replicate 5 (solid_frame w h 255 0 0))) = Some 0 \<and>
   dominantColors (analyzeColor (replicate 5 (solid_frame w h 255 0 0))) =
     [''rgb(224,0,0)'', ''rgb(224,0,0)'', ''rgb(224,0,0)''] \<and>
   analyzeScenes (replicate 5 (solid_frame w h 255 0 0)) duration =
     Inr [\<lparr>s_start = 0, s_end = duration, s_type = Indoor, s_confidence = 0.6\<rparr>]"
proof -
  assume w: "0 < w" and h: "0 < h" and d: "0 < duration"
  have l: "4 dvd length (data (solid_frame w h 255 0 0))" by (simp add: length_data_solid)
  have n: "data (solid_frame w h 255 0 0) \<noteq> []"
    using w h length_data_solid [of w h 255 0 0] by auto
  have "intensity (analyzeMotion (replicate 5 (solid_frame w h 255 0 0))) = Some 0"
    using l n by (rule intensity_identical) simp
  moreover note dominantColors_red [OF w h]
  moreover have "analyzeScenes (replicate 5 (solid_frame w h 255 0 0)) duration =
     Inr [\<lparr>s_start = 0, s_end = duration, s_type = Indoor, s_confidence = 0.6\<rparr>]"
    using scenes_identical [OF l n d] by (simp add: classifyScene_red [OF w h])
  ultimately show ?thesis by blast
qed

theorem red_frames_amended_witness:
  "(0::nat) < 2 \<and> (0::real) < 10 \<and>
   intensity (analyzeMotion (replicate 5 (solid_frame 2 2 255 0 0))) = Some 0 \<and>
   dominantColors (analyzeColor (replicate 5 (solid_frame 2 2 255 0 0))) =
     [''rgb(224,0,0)'', ''rgb(224,0,0)'', ''rgb(224,0,0)''] \<and>
   analyzeScenes (replicate 5 (solid_frame 2 2 255 0 0)) 10 =
     Inr [\<lparr>s_start = 0, s_end = 10, s_type = Indoor, s_confidence = 0.6\<rparr>]"
proof -
  have a: "(0::nat) < 2" and b: "(0::real) < 10" by simp_all
  from red_frames_amended [OF a a b] a b show ?thesis by blast
qed

end
